theory Spec2Isabelle
  imports Complex_Main "HOL-Library.Char_ord" "HOL-Library.List_Lexorder"
begin

section \<open>Drone pricing model: values, records and errors\<close>

text \<open>
  The program (\<^verbatim>\<open>Updated_Code.py\<close>, the refactoring of \<^verbatim>\<open>code.py\<close>) keeps every drone
  and camera in a Python dictionary whose entries hold \<^verbatim>\<open>None\<close>, booleans, integers,
  floats or strings, and whose computed entries are written in place. A dictionary is a
  map from key to value; a value is a \<open>pyval\<close>. A float is a real number. The results
  of float arithmetic are kept exact, except where the program's course depends on them:
  an integer too large for a float raises OverflowError when it meets a float, as does a
  power too large for a float, and the three floats that decide which case of \<^verbatim>\<open>**\<close>
  applies in \<^verbatim>\<open>ilf\<close> (the sum \<^verbatim>\<open>1+z\<close>, its logarithm and the quotient
  \<^verbatim>\<open>x/base_limit\<close>) are rounded to the nearest float. Infinities and NaN are outside
  the model. A complex number arises when a negative base is raised to a fractional
  power.

  A raised exception is a value of \<open>py_error\<close>; a procedure that mutates a dictionary
  returns its outcome together with the dictionary as the exception (or the return)
  leaves it. The elements of a list are distinct objects, as in \<^verbatim>\<open>get_example_data\<close>.
\<close>

datatype pyval = PNone | PBool bool | PInt int | PFloat real | PComplex complex | PStr string

datatype py_error = KeyError | TypeError | ValueError | ZeroDivisionError | OverflowError

type_synonym pydict = "string \<rightharpoonup> pyval"

type_synonym 'a result = "py_error + 'a"

definition bnd :: "'a result \<Rightarrow> ('a \<Rightarrow> 'b result) \<Rightarrow> 'b result" where
  "bnd m f = (case m of Inl e \<Rightarrow> Inl e | Inr v \<Rightarrow> f v)"

text \<open>\<^verbatim>\<open>d[key]\<close>: a missing key raises KeyError.\<close>

definition getitem :: "pydict \<Rightarrow> string \<Rightarrow> pyval result" where
  "getitem d k = (case d k of None \<Rightarrow> Inl KeyError | Some v \<Rightarrow> Inr v)"

subsection \<open>Python's numeric tower\<close>

text \<open>\<^verbatim>\<open>bool\<close> is a subclass of \<^verbatim>\<open>int\<close>: \<^verbatim>\<open>True\<close> counts as 1 and \<^verbatim>\<open>False\<close> as 0.\<close>

fun int_of :: "pyval \<Rightarrow> int option" where
  "int_of (PBool b) = Some (if b then 1 else 0)"
| "int_of (PInt i) = Some i"
| "int_of _ = None"

fun real_of_py :: "pyval \<Rightarrow> real option" where
  "real_of_py (PBool b) = Some (if b then 1 else 0)"
| "real_of_py (PInt i) = Some (of_int i)"
| "real_of_py (PFloat r) = Some r"
| "real_of_py _ = None"

fun complex_of_py :: "pyval \<Rightarrow> complex option" where
  "complex_of_py (PBool b) = Some (if b then 1 else 0)"
| "complex_of_py (PInt i) = Some (of_int i)"
| "complex_of_py (PFloat r) = Some (of_real r)"
| "complex_of_py (PComplex c) = Some c"
| "complex_of_py _ = None"

text \<open>\<^verbatim>\<open>isinstance(v, str)\<close> and \<^verbatim>\<open>isinstance(v, (int, float))\<close>.\<close>

fun is_str :: "pyval \<Rightarrow> bool" where
  "is_str (PStr s) = True"
| "is_str _ = False"

fun is_int_or_float :: "pyval \<Rightarrow> bool" where
  "is_int_or_float (PBool b) = True"
| "is_int_or_float (PInt i) = True"
| "is_int_or_float (PFloat r) = True"
| "is_int_or_float _ = False"

text \<open>
  Floats are IEEE binary64 numbers. An \<^verbatim>\<open>int\<close> that meets a float is converted to a
  float first: the conversion rounds to nearest, and raises OverflowError when the
  rounded value would exceed the largest float \<open>2^1024 - 2^971\<close>, that is from
  \<open>2^1024 - 2^970\<close> on.
\<close>

definition float_limit_int :: int where
  "float_limit_int = 2 ^ 1024 - 2 ^ 970"

definition float_limit :: real where
  "float_limit = of_int float_limit_int"

definition to_float :: "int \<Rightarrow> real result" where
  "to_float i = (if \<bar>i\<bar> < float_limit_int then Inr (of_int i) else Inl OverflowError)"

fun as_float :: "pyval \<Rightarrow> real result option" where
  "as_float (PBool b) = Some (Inr (if b then 1 else 0))"
| "as_float (PInt i) = Some (to_float i)"
| "as_float (PFloat r) = Some (Inr r)"
| "as_float _ = None"

fun as_complex :: "pyval \<Rightarrow> complex result option" where
  "as_complex (PComplex c) = Some (Inr c)"
| "as_complex v =
     (case as_float v of
        None \<Rightarrow> None
      | Some (Inl e) \<Rightarrow> Some (Inl e)
      | Some (Inr r) \<Rightarrow> Some (Inr (of_real r)))"

text \<open>
  A binary arithmetic operator on two numbers: the result is an \<^verbatim>\<open>int\<close> when both
  operands are, a \<^verbatim>\<open>float\<close> when neither is complex, and complex otherwise; an
  \<^verbatim>\<open>int\<close> operand of a float or complex operation is converted first. Anything else is
  a TypeError.
\<close>

definition arith ::
  "(int \<Rightarrow> int \<Rightarrow> pyval result) \<Rightarrow> (real \<Rightarrow> real \<Rightarrow> pyval result) \<Rightarrow>
   (complex \<Rightarrow> complex \<Rightarrow> pyval result) \<Rightarrow> pyval \<Rightarrow> pyval \<Rightarrow> pyval result" where
  "arith fi fr fc a b =
     (case (int_of a, int_of b) of
        (Some i, Some j) \<Rightarrow> fi i j
      | _ \<Rightarrow>
       (case (as_float a, as_float b) of
          (Some x, Some y) \<Rightarrow> bnd x (\<lambda>x'. bnd y (\<lambda>y'. fr x' y'))
        | _ \<Rightarrow>
         (case (as_complex a, as_complex b) of
            (Some u, Some v) \<Rightarrow> bnd u (\<lambda>u'. bnd v (\<lambda>v'. fc u' v'))
          | _ \<Rightarrow> Inl TypeError)))"

text \<open>\<^verbatim>\<open>a + b\<close>: numbers add, strings concatenate.\<close>

definition py_add :: "pyval \<Rightarrow> pyval \<Rightarrow> pyval result" where
  "py_add a b =
     (case (a, b) of
        (PStr s, PStr t) \<Rightarrow> Inr (PStr (s @ t))
      | _ \<Rightarrow> arith (\<lambda>i j. Inr (PInt (i + j))) (\<lambda>x y. Inr (PFloat (x + y)))
                 (\<lambda>u v. Inr (PComplex (u + v))) a b)"

definition py_sub :: "pyval \<Rightarrow> pyval \<Rightarrow> pyval result" where
  "py_sub a b =
     arith (\<lambda>i j. Inr (PInt (i - j))) (\<lambda>x y. Inr (PFloat (x - y)))
       (\<lambda>u v. Inr (PComplex (u - v))) a b"

text \<open>\<^verbatim>\<open>a * b\<close>: numbers multiply; a string times an \<^verbatim>\<open>int\<close> is repeated.\<close>

definition py_mul :: "pyval \<Rightarrow> pyval \<Rightarrow> pyval result" where
  "py_mul a b =
     (case (a, b) of
        (PStr s, _) \<Rightarrow>
          (case int_of b of
             Some n \<Rightarrow> Inr (PStr (concat (replicate (nat n) s)))
           | None \<Rightarrow> Inl TypeError)
      | (_, PStr s) \<Rightarrow>
          (case int_of a of
             Some n \<Rightarrow> Inr (PStr (concat (replicate (nat n) s)))
           | None \<Rightarrow> Inl TypeError)
      | _ \<Rightarrow> arith (\<lambda>i j. Inr (PInt (i * j))) (\<lambda>x y. Inr (PFloat (x * y)))
                 (\<lambda>u v. Inr (PComplex (u * v))) a b)"

text \<open>
  \<^verbatim>\<open>a / b\<close>: true division, a float also on two ints; a zero divisor raises. The
  quotient of two ints is rounded from the exact quotient, and raises OverflowError when
  it is too large for a float.
\<close>

definition py_truediv :: "pyval \<Rightarrow> pyval \<Rightarrow> pyval result" where
  "py_truediv a b =
     arith
       (\<lambda>i j. if j = 0 then Inl ZeroDivisionError
              else if float_limit \<le> \<bar>of_int i / of_int j\<bar> then Inl OverflowError
              else Inr (PFloat (of_int i / of_int j)))
       (\<lambda>x y. if y = 0 then Inl ZeroDivisionError else Inr (PFloat (x / y)))
       (\<lambda>u v. if v = 0 then Inl ZeroDivisionError else Inr (PComplex (u / v))) a b"

text \<open>
  \<^verbatim>\<open>a < b\<close>: defined on two real numbers and on two strings (lexicographic on code
  points); \<^verbatim>\<open>None\<close>, complex numbers and mixed operands raise TypeError.
\<close>

definition py_lt :: "pyval \<Rightarrow> pyval \<Rightarrow> bool result" where
  "py_lt a b =
     (case (a, b) of
        (PStr s, PStr t) \<Rightarrow> Inr (s < t)
      | _ \<Rightarrow>
       (case (real_of_py a, real_of_py b) of
          (Some x, Some y) \<Rightarrow> Inr (x < y)
        | _ \<Rightarrow> Inl TypeError))"

definition py_gt :: "pyval \<Rightarrow> pyval \<Rightarrow> bool result" where
  "py_gt a b = py_lt b a"

text \<open>\<^verbatim>\<open>v == True\<close>: holds of \<^verbatim>\<open>True\<close> and of every number equal to 1.\<close>

definition eq_True :: "pyval \<Rightarrow> bool" where
  "eq_True v = (complex_of_py v = Some 1)"

text \<open>
  Rounding to the nearest float, ties to even: a real of magnitude in \<open>[2^e, 2^(e+1))\<close>
  is rounded to a multiple of \<open>2^(e-52)\<close>, and below \<open>2^(-1022)\<close> to a multiple of
  \<open>2^(-1074)\<close>.
\<close>

definition round_half_even :: "real \<Rightarrow> int" where
  "round_half_even y =
     (let f = \<lfloor>y\<rfloor>; d = y - of_int f
      in if d < 1 / 2 then f else if 1 / 2 < d then f + 1 else if even f then f else f + 1)"

definition float_round :: "real \<Rightarrow> real" where
  "float_round x =
     (if x = 0 then 0
      else let e = max \<lfloor>log 2 \<bar>x\<bar>\<rfloor> (- 1022); u = 2 powi (e - 52)
           in of_int (round_half_even (x / u)) * u)"

text \<open>\<^verbatim>\<open>math.log2(x)\<close> on a float: a math domain error unless \<open>x > 0\<close>.\<close>

definition math_log2 :: "real \<Rightarrow> real result" where
  "math_log2 x = (if x \<le> 0 then Inl ValueError else Inr (float_round (log 2 x)))"

text \<open>
  \<^verbatim>\<open>b ** e\<close> with a float exponent. Any base to the power 0 is 1; zero to a negative
  power raises ZeroDivisionError; a negative float to a fractional power is the complex
  power of the base (modulus to the power, argument times the exponent); a negative
  float to a whole power is real. A result too large for a float raises OverflowError.
\<close>

definition complex_pow :: "complex \<Rightarrow> real \<Rightarrow> pyval result" where
  "complex_pow c e =
     (if e = 0 then Inr (PComplex 1)
      else if c = 0 then (if e < 0 then Inl ZeroDivisionError else Inr (PComplex 0))
      else if float_limit \<le> cmod c powr e then Inl OverflowError
      else Inr (PComplex (rcis (cmod c powr e) (Arg c * e))))"

definition float_pow :: "real \<Rightarrow> real \<Rightarrow> pyval result" where
  "float_pow b e =
     (if e = 0 then Inr (PFloat 1)
      else if b = 0 then (if e < 0 then Inl ZeroDivisionError else Inr (PFloat 0))
      else if b < 0 \<and> e \<noteq> of_int \<lfloor>e\<rfloor> then complex_pow (complex_of_real b) e
      else if float_limit \<le> \<bar>b\<bar> powr e then Inl OverflowError
      else if b < 0 then Inr (PFloat (b powi \<lfloor>e\<rfloor>))
      else Inr (PFloat (b powr e)))"

definition py_pow :: "pyval \<Rightarrow> real \<Rightarrow> pyval result" where
  "py_pow a e =
     (case a of
        PComplex c \<Rightarrow> complex_pow c e
      | _ \<Rightarrow>
         (case as_float a of
            Some (Inr b) \<Rightarrow> float_pow b e
          | Some (Inl err) \<Rightarrow> Inl err
          | None \<Rightarrow> Inl TypeError))"

section \<open>Validation\<close>

text \<open>
  \<^verbatim>\<open>validate_drone\<close>: one pass over the required keys in the order value, weight,
  tpl_limit, tpl_excess. Each round checks that the key is present, then its type, then
  that \<^verbatim>\<open>drone['value']\<close> is not negative.
\<close>

fun validate_keys :: "string list \<Rightarrow> pydict \<Rightarrow> unit result" where
  "validate_keys [] drone = Inr ()"
| "validate_keys (key # keys) drone =
     (case drone key of
        None \<Rightarrow> Inl KeyError
      | Some v \<Rightarrow>
          if key = ''weight'' \<and> \<not> is_str v then Inl TypeError
          else if key \<noteq> ''weight'' \<and> \<not> is_int_or_float v then Inl TypeError
          else
           (case bnd (getitem drone ''value'') (\<lambda>x. py_lt x (PInt 0)) of
              Inl e \<Rightarrow> Inl e
            | Inr True \<Rightarrow> Inl ValueError
            | Inr False \<Rightarrow> validate_keys keys drone))"

definition required :: "string list" where
  "required = [''value'', ''weight'', ''tpl_limit'', ''tpl_excess'']"

definition validate_drone :: "pydict \<Rightarrow> unit result" where
  "validate_drone drone = validate_keys required drone"

section \<open>ILF calculator\<close>

text \<open>
  \<^verbatim>\<open>ilf\<close> and \<^verbatim>\<open>ilf_layer\<close>. The base limit is a Python number (\<^verbatim>\<open>main\<close> passes the
  \<^verbatim>\<open>int\<close> 1000000), the surcharge \<open>z\<close> a float. The quotient \<^verbatim>\<open>x/base_limit\<close> and the
  sum \<^verbatim>\<open>1+z\<close> are floats, rounded from the exact results.
\<close>

definition rounded :: "pyval result \<Rightarrow> pyval result" where
  "rounded r = (case r of Inr (PFloat q) \<Rightarrow> Inr (PFloat (float_round q)) | _ \<Rightarrow> r)"

definition ilf :: "pyval \<Rightarrow> pyval \<Rightarrow> real \<Rightarrow> pyval result" where
  "ilf x base_limit z =
     bnd (rounded (py_truediv x base_limit)) (\<lambda>ilf_core.
     bnd (math_log2 (float_round (1 + z))) (\<lambda>ilf_power.
     py_pow ilf_core ilf_power))"

definition ilf_layer :: "pyval \<Rightarrow> pyval \<Rightarrow> pyval \<Rightarrow> real \<Rightarrow> pyval result" where
  "ilf_layer limit excess base_limit z =
     bnd (py_add limit excess) (\<lambda>limit_excess.
     bnd (ilf limit_excess base_limit z) (\<lambda>ilf_limit_excess.
     bnd (ilf excess base_limit z) (\<lambda>ilf_excess.
     py_sub ilf_limit_excess ilf_excess)))"

section \<open>Hull and TPL pricing\<close>

text \<open>
  An assignment \<^verbatim>\<open>d[k] = rhs\<close> evaluates its right-hand side first: when that raises,
  the dictionary is left as it is and the rest of the procedure is skipped.
\<close>

definition setitem ::
  "pydict \<Rightarrow> string \<Rightarrow> pyval result \<Rightarrow> (pydict \<Rightarrow> unit result \<times> pydict) \<Rightarrow>
   unit result \<times> pydict" where
  "setitem d k rhs cont = (case rhs of Inl e \<Rightarrow> (Inl e, d) | Inr v \<Rightarrow> cont (d(k \<mapsto> v)))"

definition returns :: "pydict \<Rightarrow> unit result \<times> pydict" where
  "returns d = (Inr (), d)"

text \<open>
  \<^verbatim>\<open>weight_adj_table.get(w, 1)\<close> on a table keyed by the weight-band labels; a key
  that is not a string is in no such table.
\<close>

definition table_get :: "(string \<rightharpoonup> pyval) \<Rightarrow> pyval \<Rightarrow> pyval" where
  "table_get weight_adj_table w =
     (case w of
        PStr s \<Rightarrow> (case weight_adj_table s of Some a \<Rightarrow> a | None \<Rightarrow> PInt 1)
      | _ \<Rightarrow> PInt 1)"

definition calculate_hull_premium ::
  "pydict \<Rightarrow> real \<Rightarrow> (string \<rightharpoonup> pyval) \<Rightarrow> unit result \<times> pydict" where
  "calculate_hull_premium drone hull_base_rate weight_adj_table =
     (case validate_drone drone of
        Inl e \<Rightarrow> (Inl e, drone)
      | Inr _ \<Rightarrow>
          setitem drone ''hull_base_rate'' (Inr (PFloat hull_base_rate)) (\<lambda>d.
          setitem d ''hull_weight_adjustment''
            (bnd (getitem d ''weight'') (\<lambda>w. Inr (table_get weight_adj_table w))) (\<lambda>d.
          setitem d ''hull_final_rate''
            (bnd (getitem d ''hull_base_rate'') (\<lambda>a.
             bnd (getitem d ''hull_weight_adjustment'') (\<lambda>b. py_mul a b))) (\<lambda>d.
          setitem d ''hull_premium''
            (bnd (getitem d ''value'') (\<lambda>a.
             bnd (getitem d ''hull_final_rate'') (\<lambda>b. py_mul a b))) returns))))"

definition calculate_tpl_premium ::
  "pydict \<Rightarrow> real \<Rightarrow> pyval \<Rightarrow> real \<Rightarrow> unit result \<times> pydict" where
  "calculate_tpl_premium drone tpl_base_rate base_limit z =
     (case validate_drone drone of
        Inl e \<Rightarrow> (Inl e, drone)
      | Inr _ \<Rightarrow>
          setitem drone ''tpl_base_rate'' (Inr (PFloat tpl_base_rate)) (\<lambda>d.
          setitem d ''tpl_base_layer_premium''
            (bnd (getitem d ''tpl_base_rate'') (\<lambda>a.
             bnd (getitem d ''value'') (\<lambda>b. py_mul a b))) (\<lambda>d.
          setitem d ''tpl_ilf''
            (bnd (getitem d ''tpl_limit'') (\<lambda>a.
             bnd (getitem d ''tpl_excess'') (\<lambda>b. ilf_layer a b base_limit z))) (\<lambda>d.
          setitem d ''tpl_layer_premium''
            (bnd (getitem d ''tpl_base_layer_premium'') (\<lambda>a.
             bnd (getitem d ''tpl_ilf'') (\<lambda>b. py_mul a b))) returns))))"

section \<open>Camera pricing\<close>

text \<open>
  A \<^verbatim>\<open>for\<close> loop whose body mutates the element it visits: the first exception ends
  the loop, with the elements visited so far as their bodies left them.
\<close>

fun for_each ::
  "(pydict \<Rightarrow> unit result \<times> pydict) \<Rightarrow> pydict list \<Rightarrow> unit result \<times> pydict list" where
  "for_each body [] = (Inr (), [])"
| "for_each body (x # xs) =
     (case body x of
        (Inl e, x') \<Rightarrow> (Inl e, x' # xs)
      | (Inr _, x') \<Rightarrow> (case for_each body xs of (out, xs') \<Rightarrow> (out, x' # xs')))"

text \<open>
  \<^verbatim>\<open>get_max_hull_rate\<close>: the loop carries \<^verbatim>\<open>max_rate\<close>, which starts as \<^verbatim>\<open>None\<close>; the
  comparison is evaluated only when \<^verbatim>\<open>max_rate\<close> is not \<^verbatim>\<open>None\<close>.
\<close>

fun max_rate_loop :: "pyval \<Rightarrow> pydict list \<Rightarrow> pyval result" where
  "max_rate_loop max_rate [] = Inr max_rate"
| "max_rate_loop max_rate (d # ds) =
     (case getitem d ''has_detachable_camera'' of
        Inl e \<Rightarrow> Inl e
      | Inr flag \<Rightarrow>
          if eq_True flag then
            (case (if max_rate = PNone then Inr True
                   else bnd (getitem d ''hull_final_rate'') (\<lambda>r. py_gt r max_rate)) of
               Inl e \<Rightarrow> Inl e
             | Inr True \<Rightarrow>
                 (case getitem d ''hull_final_rate'' of
                    Inl e \<Rightarrow> Inl e
                  | Inr r \<Rightarrow> max_rate_loop r ds)
             | Inr False \<Rightarrow> max_rate_loop max_rate ds)
          else max_rate_loop max_rate ds)"

definition get_max_hull_rate :: "pydict list \<Rightarrow> pyval result" where
  "get_max_hull_rate drones = max_rate_loop PNone drones"

definition camera_body :: "pyval \<Rightarrow> pydict \<Rightarrow> unit result \<times> pydict" where
  "camera_body max_hull_rate camera =
     setitem camera ''hull_rate'' (Inr max_hull_rate) (\<lambda>c.
     setitem c ''hull_premium''
       (bnd (getitem c ''value'') (\<lambda>a.
        bnd (getitem c ''hull_rate'') (\<lambda>b. py_mul a b))) returns)"

definition calculate_camera_premium ::
  "pydict list \<Rightarrow> pyval \<Rightarrow> unit result \<times> pydict list" where
  "calculate_camera_premium detachable_cameras max_hull_rate =
     for_each (camera_body max_hull_rate) detachable_cameras"

text \<open>
  The first version (\<^verbatim>\<open>code.py\<close>) takes the rate with the built-in \<^verbatim>\<open>max\<close> over a
  generator of the flagged drones' rates: the first rate starts the maximum, each later
  one replaces it when greater, and no rate at all raises ValueError.
\<close>

fun builtin_max_rate :: "pyval option \<Rightarrow> pydict list \<Rightarrow> pyval result" where
  "builtin_max_rate None [] = Inl ValueError"
| "builtin_max_rate (Some m) [] = Inr m"
| "builtin_max_rate cur (d # ds) =
     (case getitem d ''has_detachable_camera'' of
        Inl e \<Rightarrow> Inl e
      | Inr flag \<Rightarrow>
          if eq_True flag then
            (case getitem d ''hull_final_rate'' of
               Inl e \<Rightarrow> Inl e
             | Inr r \<Rightarrow>
                 (case cur of
                    None \<Rightarrow> builtin_max_rate (Some r) ds
                  | Some m \<Rightarrow>
                      (case py_gt r m of
                         Inl e \<Rightarrow> Inl e
                       | Inr True \<Rightarrow> builtin_max_rate (Some r) ds
                       | Inr False \<Rightarrow> builtin_max_rate (Some m) ds)))
          else builtin_max_rate cur ds)"

section \<open>The policy batch\<close>

text \<open>
  The top-level dictionary has a fixed set of keys and is a record; the brokerage is a
  float and the cap on airborne drones an integer.
\<close>

record batch =
  insured :: string
  underwriter :: string
  broker :: string
  brokerage :: real
  max_drones_in_air :: int
  drones :: "pydict list"
  detachable_cameras :: "pydict list"
  gross_prem :: pydict
  net_prem :: pydict

section \<open>Extension adjuster\<close>

text \<open>
  \<^verbatim>\<open>sorted(xs, key=lambda d: d[k], reverse=True)\<close>. The keys of all elements are taken
  first (a missing key raises KeyError). Sorting two or more elements compares keys
  with \<^verbatim>\<open><\<close>, which raises TypeError unless the keys are all real numbers or all
  strings. The result is in descending order of key and stable: elements with equal
  keys keep their input order. The sorted list holds the same objects as the input
  list; it is modelled by the list of their positions in the input.
\<close>

fun keys_of :: "string \<Rightarrow> pydict list \<Rightarrow> pyval list result" where
  "keys_of k [] = Inr []"
| "keys_of k (d # ds) =
     (case getitem d k of
        Inl e \<Rightarrow> Inl e
      | Inr v \<Rightarrow> (case keys_of k ds of Inl e \<Rightarrow> Inl e | Inr vs \<Rightarrow> Inr (v # vs)))"

definition comparable :: "pyval list \<Rightarrow> bool" where
  "comparable ks = (list_all (\<lambda>v. real_of_py v \<noteq> None) ks \<or> list_all is_str ks)"

definition key_lt :: "pyval \<Rightarrow> pyval \<Rightarrow> bool" where
  "key_lt a b = (py_lt a b = Inr True)"

fun insort_desc :: "pyval \<times> nat \<Rightarrow> (pyval \<times> nat) list \<Rightarrow> (pyval \<times> nat) list" where
  "insort_desc p [] = [p]"
| "insort_desc p (q # qs) =
     (if key_lt (fst q) (fst p) then p # q # qs else q # insort_desc p qs)"

definition sorted_reverse :: "string \<Rightarrow> pydict list \<Rightarrow> nat list result" where
  "sorted_reverse k xs =
     (case keys_of k xs of
        Inl e \<Rightarrow> Inl e
      | Inr ks \<Rightarrow>
          if 2 \<le> length ks \<and> \<not> comparable ks then Inl TypeError
          else Inr (map snd (foldl (\<lambda>acc p. insort_desc p acc) [] (zip ks [0..<length ks]))))"

text \<open>
  The capping loop \<^verbatim>\<open>for i, unit in enumerate(sorted_units)\<close>: the unit at position
  \<open>j\<close> of the input list gets the flat premium when \<^verbatim>\<open>i >= max_drones\<close> and its own
  \<^verbatim>\<open>hull_premium\<close> otherwise.
\<close>

fun cap_loop ::
  "int \<Rightarrow> pyval \<Rightarrow> nat \<Rightarrow> nat list \<Rightarrow> pydict list \<Rightarrow> unit result \<times> pydict list" where
  "cap_loop max_drones flat i [] xs = (Inr (), xs)"
| "cap_loop max_drones flat i (j # js) xs =
     (case setitem (xs ! j) ''adjusted_hull_premium''
             (if int i \<ge> max_drones then Inr flat else getitem (xs ! j) ''hull_premium'')
             returns of
        (Inl e, x') \<Rightarrow> (Inl e, xs[j := x'])
      | (Inr _, x') \<Rightarrow> cap_loop max_drones flat (Suc i) js (xs[j := x']))"

definition uncapped_body :: "pydict \<Rightarrow> unit result \<times> pydict" where
  "uncapped_body cam =
     setitem cam ''adjusted_hull_premium'' (getitem cam ''hull_premium'') returns"

definition applying_extensions :: "batch \<Rightarrow> unit result \<times> batch" where
  "applying_extensions data =
     (let max_drones = max_drones_in_air data in
      (case sorted_reverse ''hull_premium'' (drones data) of
         Inl e \<Rightarrow> (Inl e, data)
       | Inr sorted_drones \<Rightarrow>
          (case cap_loop max_drones (PInt 150) 0 sorted_drones (drones data) of
             (Inl e, ds) \<Rightarrow> (Inl e, data\<lparr>drones := ds\<rparr>)
           | (Inr _, ds) \<Rightarrow>
              (let data1 = data\<lparr>drones := ds\<rparr> in
               if length (detachable_cameras data1) > length (drones data1) then
                 (case sorted_reverse ''value'' (detachable_cameras data1) of
                    Inl e \<Rightarrow> (Inl e, data1)
                  | Inr sorted_cameras \<Rightarrow>
                     (case cap_loop max_drones (PInt 50) 0 sorted_cameras
                             (detachable_cameras data1) of
                        (out, cs) \<Rightarrow> (out, data1\<lparr>detachable_cameras := cs\<rparr>)))
               else
                 (case for_each uncapped_body (detachable_cameras data1) of
                    (out, cs) \<Rightarrow> (out, data1\<lparr>detachable_cameras := cs\<rparr>))))))"

section \<open>Aggregator\<close>

text \<open>\<^verbatim>\<open>sum(d[k] for d in xs)\<close>: starts from the integer 0 and adds each entry in turn.\<close>

fun sum_loop :: "pyval \<Rightarrow> string \<Rightarrow> pydict list \<Rightarrow> pyval result" where
  "sum_loop acc k [] = Inr acc"
| "sum_loop acc k (d # ds) =
     (case getitem d k of
        Inl e \<Rightarrow> Inl e
      | Inr v \<Rightarrow> (case py_add acc v of Inl e \<Rightarrow> Inl e | Inr acc' \<Rightarrow> sum_loop acc' k ds))"

definition py_sum :: "string \<Rightarrow> pydict list \<Rightarrow> pyval result" where
  "py_sum k xs = sum_loop (PInt 0) k xs"

definition set_net ::
  "batch \<Rightarrow> string \<Rightarrow> pyval result \<Rightarrow> (batch \<Rightarrow> unit result \<times> batch) \<Rightarrow>
   unit result \<times> batch" where
  "set_net data k rhs cont =
     (case rhs of
        Inl e \<Rightarrow> (Inl e, data)
      | Inr v \<Rightarrow> cont (data\<lparr>net_prem := (net_prem data)(k \<mapsto> v)\<rparr>))"

definition set_gross ::
  "batch \<Rightarrow> string \<Rightarrow> pyval result \<Rightarrow> (batch \<Rightarrow> unit result \<times> batch) \<Rightarrow>
   unit result \<times> batch" where
  "set_gross data k rhs cont =
     (case rhs of
        Inl e \<Rightarrow> (Inl e, data)
      | Inr v \<Rightarrow> cont (data\<lparr>gross_prem := (gross_prem data)(k \<mapsto> v)\<rparr>))"

definition completed :: "batch \<Rightarrow> unit result \<times> batch" where
  "completed data = (Inr (), data)"

text \<open>The net premiums (\<^verbatim>\<open>main\<close>, "sum together net premiums").\<close>

definition net_premiums :: "batch \<Rightarrow> unit result \<times> batch" where
  "net_premiums data0 =
     set_net data0 ''drones_hull'' (py_sum ''adjusted_hull_premium'' (drones data0)) (\<lambda>data.
     set_net data ''drones_tpl'' (py_sum ''tpl_layer_premium'' (drones data)) (\<lambda>data.
     set_net data ''cameras_hull''
       (py_sum ''adjusted_hull_premium'' (detachable_cameras data)) (\<lambda>data.
     set_net data ''total''
       (bnd (getitem (net_prem data) ''drones_hull'') (\<lambda>a.
        bnd (getitem (net_prem data) ''drones_tpl'') (\<lambda>b.
        bnd (py_add a b) (\<lambda>ab.
        bnd (getitem (net_prem data) ''cameras_hull'') (\<lambda>c. py_add ab c))))) completed)))"

text \<open>The gross premiums (\<^verbatim>\<open>main\<close>, "calculate gross premiums").\<close>

definition gross_line :: "batch \<Rightarrow> string \<Rightarrow> pyval result" where
  "gross_line data k =
     bnd (getitem (net_prem data) k) (\<lambda>n.
     bnd (py_sub (PInt 1) (PFloat (brokerage data))) (\<lambda>m. py_truediv n m))"

definition gross_premiums :: "batch \<Rightarrow> unit result \<times> batch" where
  "gross_premiums data0 =
     set_gross data0 ''drones_hull'' (gross_line data0 ''drones_hull'') (\<lambda>data.
     set_gross data ''drones_tpl'' (gross_line data ''drones_tpl'') (\<lambda>data.
     set_gross data ''cameras_hull'' (gross_line data ''cameras_hull'') (\<lambda>data.
     set_gross data ''total''
       (bnd (getitem (gross_prem data) ''drones_hull'') (\<lambda>a.
        bnd (getitem (gross_prem data) ''drones_tpl'') (\<lambda>b.
        bnd (py_add a b) (\<lambda>ab.
        bnd (getitem (gross_prem data) ''cameras_hull'') (\<lambda>c. py_add ab c))))) completed)))"

section \<open>The rating pass\<close>

text \<open>
  The body of \<^verbatim>\<open>main\<close>, with the batch and the rating parameters it fixes taken as
  arguments. An exception in any step ends the pass with the batch as that step left it.
\<close>

definition drone_body ::
  "(string \<rightharpoonup> pyval) \<Rightarrow> real \<Rightarrow> real \<Rightarrow> pyval \<Rightarrow> real \<Rightarrow> pydict \<Rightarrow> unit result \<times> pydict" where
  "drone_body weight_adj_table hull_base_rate tpl_base_rate base_limit z drone =
     (case calculate_hull_premium drone hull_base_rate weight_adj_table of
        (Inl e, d) \<Rightarrow> (Inl e, d)
      | (Inr _, d) \<Rightarrow> calculate_tpl_premium d tpl_base_rate base_limit z)"

definition main_body ::
  "batch \<Rightarrow> (string \<rightharpoonup> pyval) \<Rightarrow> real \<Rightarrow> real \<Rightarrow> pyval \<Rightarrow> real \<Rightarrow> unit result \<times> batch" where
  "main_body data weight_adj_table hull_base_rate tpl_base_rate base_limit z =
     (case for_each (drone_body weight_adj_table hull_base_rate tpl_base_rate base_limit z)
             (drones data) of
        (Inl e, ds) \<Rightarrow> (Inl e, data\<lparr>drones := ds\<rparr>)
      | (Inr _, ds) \<Rightarrow>
          (let data1 = data\<lparr>drones := ds\<rparr> in
           (case get_max_hull_rate (drones data1) of
              Inl e \<Rightarrow> (Inl e, data1)
            | Inr max_rate \<Rightarrow>
               (case calculate_camera_premium (detachable_cameras data1) max_rate of
                  (Inl e, cs) \<Rightarrow> (Inl e, data1\<lparr>detachable_cameras := cs\<rparr>)
                | (Inr _, cs) \<Rightarrow>
                   (case applying_extensions (data1\<lparr>detachable_cameras := cs\<rparr>) of
                      (Inl e, data2) \<Rightarrow> (Inl e, data2)
                    | (Inr _, data2) \<Rightarrow>
                       (case net_premiums data2 of
                          (Inl e, data3) \<Rightarrow> (Inl e, data3)
                        | (Inr _, data3) \<Rightarrow> gross_premiums data3))))))"

subsection \<open>The example data and parameters of \<^verbatim>\<open>main\<close>\<close>

definition example_drone ::
  "string \<Rightarrow> int \<Rightarrow> string \<Rightarrow> bool \<Rightarrow> int \<Rightarrow> int \<Rightarrow> pydict" where
  "example_drone serial v w cam t_limit t_excess =
     [''serial_number'' \<mapsto> PStr serial, ''value'' \<mapsto> PInt v, ''weight'' \<mapsto> PStr w,
      ''has_detachable_camera'' \<mapsto> PBool cam, ''tpl_limit'' \<mapsto> PInt t_limit,
      ''tpl_excess'' \<mapsto> PInt t_excess, ''hull_base_rate'' \<mapsto> PNone,
      ''hull_weight_adjustment'' \<mapsto> PNone, ''hull_final_rate'' \<mapsto> PNone,
      ''hull_premium'' \<mapsto> PNone, ''tpl_base_rate'' \<mapsto> PNone,
      ''tpl_base_layer_premium'' \<mapsto> PNone, ''tpl_ilf'' \<mapsto> PNone,
      ''tpl_layer_premium'' \<mapsto> PNone]"

definition example_camera :: "string \<Rightarrow> int \<Rightarrow> pydict" where
  "example_camera serial v =
     [''serial_number'' \<mapsto> PStr serial, ''value'' \<mapsto> PInt v, ''hull_rate'' \<mapsto> PNone,
      ''hull_premium'' \<mapsto> PNone]"

definition empty_totals :: pydict where
  "empty_totals =
     [''drones_hull'' \<mapsto> PNone, ''drones_tpl'' \<mapsto> PNone, ''cameras_hull'' \<mapsto> PNone,
      ''total'' \<mapsto> PNone]"

definition get_example_data :: batch where
  "get_example_data =
     \<lparr>insured = ''Drones R Us'', underwriter = ''Michael'', broker = ''AON'',
      brokerage = 3 / 10, max_drones_in_air = 2,
      drones =
        [example_drone ''AAA-111'' 10000 ''0 - 5kg'' True 1000000 0,
         example_drone ''BBB-222'' 12000 ''10 - 20kg'' False 4000000 1000000,
         example_drone ''AAA-123'' 15000 ''5 - 10kg'' True 5000000 5000000],
      detachable_cameras =
        [example_camera ''ZZZ-999'' 5000, example_camera ''YYY-888'' 2500,
         example_camera ''XXX-777'' 1500, example_camera ''WWW-666'' 2000],
      gross_prem = empty_totals, net_prem = empty_totals\<rparr>"

definition example_weight_adj_table :: "string \<rightharpoonup> pyval" where
  "example_weight_adj_table =
     [''0 - 5kg'' \<mapsto> PInt 1, ''5 - 10kg'' \<mapsto> PFloat (12 / 10),
      ''10 - 20kg'' \<mapsto> PFloat (16 / 10), ''> 20kg'' \<mapsto> PFloat (25 / 10)]"

definition main :: "unit result \<times> batch" where
  "main =
     main_body get_example_data example_weight_adj_table (6 / 100) (2 / 100) (PInt 1000000)
       (2 / 10)"

section \<open>Notions of the specification\<close>

text \<open>
  The validation failures as the specification names them: a required field is absent
  (MissingField), a field has the wrong type (TypeMismatch), the value is negative
  (InvalidValue); and the checks of \<^verbatim>\<open>validate_drone\<close> laid out in the order in which
  they are made.
\<close>

definition negative :: "pyval \<Rightarrow> bool" where
  "negative v = (case real_of_py v of Some r \<Rightarrow> r < 0 | None \<Rightarrow> False)"

definition missing_field :: "pydict \<Rightarrow> bool" where
  "missing_field drone = (\<exists>k \<in> set required. drone k = None)"

definition type_mismatch :: "pydict \<Rightarrow> bool" where
  "type_mismatch drone =
     ((case drone ''weight'' of Some w \<Rightarrow> \<not> is_str w | None \<Rightarrow> False)
      \<or> (\<exists>k \<in> {''value'', ''tpl_limit'', ''tpl_excess''}.
            case drone k of Some v \<Rightarrow> \<not> is_int_or_float v | None \<Rightarrow> False))"

definition invalid_value :: "pydict \<Rightarrow> bool" where
  "invalid_value drone = (case drone ''value'' of Some v \<Rightarrow> negative v | None \<Rightarrow> False)"

definition first_failed_check :: "pydict \<Rightarrow> py_error option" where
  "first_failed_check drone =
     (case drone ''value'' of
        None \<Rightarrow> Some KeyError
      | Some v \<Rightarrow>
          if \<not> is_int_or_float v then Some TypeError
          else if negative v then Some ValueError
          else
           (case drone ''weight'' of
              None \<Rightarrow> Some KeyError
            | Some w \<Rightarrow>
                if \<not> is_str w then Some TypeError
                else
                 (case drone ''tpl_limit'' of
                    None \<Rightarrow> Some KeyError
                  | Some l \<Rightarrow>
                      if \<not> is_int_or_float l then Some TypeError
                      else
                       (case drone ''tpl_excess'' of
                          None \<Rightarrow> Some KeyError
                        | Some x \<Rightarrow> if \<not> is_int_or_float x then Some TypeError else None))))"

definition float_or_complex :: "pyval \<Rightarrow> bool" where
  "float_or_complex p = (case p of PFloat r \<Rightarrow> True | PComplex c \<Rightarrow> True | _ \<Rightarrow> False)"

text \<open>
  An \<^verbatim>\<open>int\<close> fits a float when its magnitude is below the float range's end; every
  other value does.
\<close>

definition fits_float :: "pyval \<Rightarrow> bool" where
  "fits_float v = (case v of PInt i \<Rightarrow> \<bar>i\<bar> < float_limit_int | _ \<Rightarrow> True)"

text \<open>A real and a complex number within the range of the finite floats.\<close>

definition in_float_range :: "real \<Rightarrow> bool" where
  "in_float_range r = (\<bar>r\<bar> < float_limit)"

definition in_complex_range :: "complex \<Rightarrow> bool" where
  "in_complex_range c = (cmod c < float_limit)"

text \<open>
  The power \<open>q ** p\<close> for a positive exponent \<open>p\<close>, as a complex number: real on a base
  that is not negative and on a whole exponent, and otherwise of modulus \<open>|q| ** p\<close> and
  argument \<open>\<pi> p\<close>.
\<close>

definition power_curve :: "real \<Rightarrow> real \<Rightarrow> complex" where
  "power_curve q p =
     (if 0 \<le> q then of_real (q powr p)
      else if p = of_int \<lfloor>p\<rfloor> then of_real (q powi \<lfloor>p\<rfloor>)
      else rcis (\<bar>q\<bar> powr p) (pi * p))"

subsection \<open>Sample records\<close>

definition drone_missing_excess :: pydict where
  "drone_missing_excess =
     [''value'' \<mapsto> PInt 10000, ''weight'' \<mapsto> PStr ''0 - 5kg'', ''tpl_limit'' \<mapsto> PInt 1000000]"

definition drone_negative_value :: pydict where
  "drone_negative_value =
     [''value'' \<mapsto> PInt (- 5), ''weight'' \<mapsto> PStr ''0 - 5kg'', ''tpl_limit'' \<mapsto> PInt 1000000]"

definition drone_mistyped_value :: pydict where
  "drone_mistyped_value =
     [''value'' \<mapsto> PStr ''10000'', ''weight'' \<mapsto> PStr ''0 - 5kg'',
      ''tpl_limit'' \<mapsto> PInt 1000000]"

definition drone_huge_value :: pydict where
  "drone_huge_value =
     [''value'' \<mapsto> PInt (10 ^ 309), ''weight'' \<mapsto> PStr ''0 - 5kg'',
      ''tpl_limit'' \<mapsto> PInt 1000000, ''tpl_excess'' \<mapsto> PInt 0]"

definition drone_huge_negative_limit :: pydict where
  "drone_huge_negative_limit =
     [''value'' \<mapsto> PInt 10000, ''weight'' \<mapsto> PStr ''0 - 5kg'',
      ''tpl_limit'' \<mapsto> PInt (- (10 ^ 400)), ''tpl_excess'' \<mapsto> PInt 0]"

definition drone_negative_tpl :: pydict where
  "drone_negative_tpl =
     [''value'' \<mapsto> PInt 10000, ''weight'' \<mapsto> PStr ''0 - 5kg'',
      ''tpl_limit'' \<mapsto> PInt (- 2000000), ''tpl_excess'' \<mapsto> PFloat (- 1000000)]"

subsection \<open>Ranking of priced units\<close>

text \<open>
  A unit is priced on a key when its entry there is a real number; \<open>num_at\<close> reads that
  number. A list of positions is the stable descending order of \<open>n\<close> units by a ranking
  key when it holds every position below \<open>n\<close> once, and each position comes before
  those of smaller key and before the later positions of equal key.
\<close>

definition numeric_field :: "string \<Rightarrow> pydict \<Rightarrow> bool" where
  "numeric_field k d = (case d k of Some v \<Rightarrow> real_of_py v \<noteq> None | None \<Rightarrow> False)"

definition num_at :: "string \<Rightarrow> pydict \<Rightarrow> real" where
  "num_at k d = (case d k of Some v \<Rightarrow> (case real_of_py v of Some r \<Rightarrow> r | None \<Rightarrow> 0) | None \<Rightarrow> 0)"

definition ranks_before :: "(nat \<Rightarrow> real) \<Rightarrow> nat \<Rightarrow> nat \<Rightarrow> bool" where
  "ranks_before key i j = (key j < key i \<or> (key i = key j \<and> i < j))"

definition stable_desc :: "(nat \<Rightarrow> real) \<Rightarrow> nat \<Rightarrow> nat list \<Rightarrow> bool" where
  "stable_desc key n os =
     (distinct os \<and> set os = set [0..<n] \<and> sorted_wrt (ranks_before key) os)"

text \<open>
  The number a key stands for, the order on (key, position) pairs that a descending
  stable sort establishes, and the entry the capping rule gives the unit at place \<open>p\<close> of
  the sorted order: its own \<^verbatim>\<open>hull_premium\<close> for the first \<open>m\<close> places, the flat premium
  after them.
\<close>

definition rk :: "pyval \<Rightarrow> real" where
  "rk v = (case real_of_py v of Some r \<Rightarrow> r | None \<Rightarrow> 0)"

definition pair_before :: "pyval \<times> nat \<Rightarrow> pyval \<times> nat \<Rightarrow> bool" where
  "pair_before p q = (rk (fst q) < rk (fst p) \<or> (rk (fst p) = rk (fst q) \<and> snd p < snd q))"

definition entry :: "string \<Rightarrow> pydict \<Rightarrow> pyval" where
  "entry k d = (case d k of Some v \<Rightarrow> v | None \<Rightarrow> PNone)"

definition cap_entry :: "int \<Rightarrow> pyval \<Rightarrow> nat \<Rightarrow> pydict \<Rightarrow> pydict" where
  "cap_entry m flat p d =
     d(''adjusted_hull_premium'' := (if int p < m then d ''hull_premium'' else Some flat))"

definition uncapped :: "pydict \<Rightarrow> pydict" where
  "uncapped d = d(''adjusted_hull_premium'' := d ''hull_premium'')"

subsection \<open>Sample batches\<close>

text \<open>
  A drone that carries only the entry the extension adjuster reads, a batch around given
  drones and cameras, the four cameras of \<^verbatim>\<open>get_example_data\<close>, and the adjusted
  premiums of a list of units.
\<close>

definition priced_drone :: "real \<Rightarrow> pydict" where
  "priced_drone p = [''hull_premium'' \<mapsto> PFloat p]"

definition sample_batch :: "real \<Rightarrow> int \<Rightarrow> pydict list \<Rightarrow> pydict list \<Rightarrow> batch" where
  "sample_batch b n ds cs =
     \<lparr>insured = ''Drones R Us'', underwriter = ''Michael'', broker = ''AON'',
      brokerage = b, max_drones_in_air = n, drones = ds, detachable_cameras = cs,
      gross_prem = empty_totals, net_prem = empty_totals\<rparr>"

definition example_cameras :: "pydict list" where
  "example_cameras =
     [example_camera ''ZZZ-999'' 5000, example_camera ''YYY-888'' 2500,
      example_camera ''XXX-777'' 1500, example_camera ''WWW-666'' 2000]"

definition adjusted :: "pydict list \<Rightarrow> pyval option list" where
  "adjusted xs = map (\<lambda>d. d ''adjusted_hull_premium'') xs"

text \<open>An example camera after \<^verbatim>\<open>calculate_camera_premium\<close> at the rate \<open>r\<close>.\<close>

definition priced_camera :: "string \<Rightarrow> int \<Rightarrow> real \<Rightarrow> pydict" where
  "priced_camera serial v r =
     (example_camera serial v)(''hull_rate'' \<mapsto> PFloat r, ''hull_premium'' \<mapsto> PFloat (of_int v * r))"

subsection \<open>Camera rate and amounts\<close>

text \<open>
  A drone is flagged when its \<^verbatim>\<open>has_detachable_camera\<close> entry equals \<^verbatim>\<open>True\<close>. The
  amount of an entry is the number it holds (0 for an entry that holds no number).
\<close>

definition flagged :: "pydict \<Rightarrow> bool" where
  "flagged d = (case d ''has_detachable_camera'' of Some f \<Rightarrow> eq_True f | None \<Rightarrow> False)"

definition rated_drone :: "bool \<Rightarrow> real \<Rightarrow> pydict" where
  "rated_drone flag rate =
     [''has_detachable_camera'' \<mapsto> PBool flag, ''hull_final_rate'' \<mapsto> PFloat rate]"

definition is_number :: "string \<Rightarrow> pydict \<Rightarrow> bool" where
  "is_number k d = (case d k of Some v \<Rightarrow> complex_of_py v \<noteq> None | None \<Rightarrow> False)"

definition amount :: "string \<Rightarrow> pydict \<Rightarrow> complex" where
  "amount k d =
     (case d k of Some v \<Rightarrow> (case complex_of_py v of Some c \<Rightarrow> c | None \<Rightarrow> 0) | None \<Rightarrow> 0)"

text \<open>A batch whose net premiums have been computed, with brokerage \<open>b\<close>.\<close>

definition netted_batch :: "real \<Rightarrow> batch" where
  "netted_batch b =
     (sample_batch b 2 [] [])
       \<lparr>net_prem := [''drones_hull'' \<mapsto> PFloat 1590, ''drones_tpl'' \<mapsto> PFloat 300,
                    ''cameras_hull'' \<mapsto> PFloat 460, ''total'' \<mapsto> PFloat 2350]\<rparr>"

text \<open>A batch of one example drone and one example camera.\<close>

definition small_batch :: batch where
  "small_batch =
     sample_batch (3 / 10) 2 [example_drone ''AAA-111'' 10000 ''0 - 5kg'' True 1000000 0]
       [example_camera ''ZZZ-999'' 5000]"

section \<open>Rounding to the nearest float\<close>

lemma round_half_even_bounds:
  "\<lfloor>y\<rfloor> \<le> round_half_even y" "round_half_even y \<le> \<lfloor>y\<rfloor> + 1"
  by (simp_all add: round_half_even_def Let_def)

lemma round_half_even_of_int [simp]: "round_half_even (of_int k) = k"
  by (simp add: round_half_even_def Let_def)

lemma round_half_even_ge: "of_int k \<le> y \<Longrightarrow> k \<le> round_half_even y"
proof -
  assume "of_int k \<le> y"
  then have "k \<le> \<lfloor>y\<rfloor>" by (simp add: le_floor_iff)
  with round_half_even_bounds(1)[of y] show ?thesis by linarith
qed

lemma round_half_even_le:
  assumes "y \<le> of_int k"
  shows "round_half_even y \<le> k"
proof (cases "y = of_int k")
  case True
  then show ?thesis by simp
next
  case False
  with assms have "y < of_int k" by simp
  then have "\<lfloor>y\<rfloor> < k" by (simp add: floor_less_iff)
  with round_half_even_bounds(2)[of y] show ?thesis by simp
qed

lemma round_half_even_mono:
  assumes "x \<le> y"
  shows "round_half_even x \<le> round_half_even y"
proof (cases "\<lfloor>x\<rfloor> = \<lfloor>y\<rfloor>")
  case True
  with assms show ?thesis by (auto simp add: round_half_even_def Let_def)
next
  case False
  with assms have "\<lfloor>x\<rfloor> < \<lfloor>y\<rfloor>" by (simp add: floor_mono order_less_le)
  with round_half_even_bounds(2)[of x] round_half_even_bounds(1)[of y] show ?thesis by simp
qed

lemma round_half_even_minus: "round_half_even (- y) = - round_half_even y"
proof (cases "y = of_int \<lfloor>y\<rfloor>")
  case True
  then have "round_half_even (- of_int \<lfloor>y\<rfloor>) = - round_half_even (of_int \<lfloor>y\<rfloor>)"
    unfolding of_int_minus[symmetric] round_half_even_of_int by simp
  with True show ?thesis by simp
next
  case False
  then have f: "\<lfloor>- y\<rfloor> = - \<lfloor>y\<rfloor> - 1"
  proof -
    have "of_int \<lfloor>y\<rfloor> < y" using False of_int_floor_le[of y] by linarith
    moreover have "y < of_int \<lfloor>y\<rfloor> + 1" by linarith
    ultimately have "of_int (- \<lfloor>y\<rfloor> - 1) \<le> - y" "- y < of_int (- \<lfloor>y\<rfloor> - 1) + 1"
      unfolding of_int_diff of_int_minus of_int_1 by linarith+
    then show ?thesis by (rule floor_unique)
  qed
  show ?thesis
    unfolding round_half_even_def Let_def f by (auto simp add: algebra_simps)
qed


lemma two_powi_split: "(2::real) powi k = 2 powi (k - j) * 2 powi j"
  by (simp flip: power_int_add)

lemma two_powi_int: "0 \<le> j \<Longrightarrow> (2::real) powi j = of_int (2 ^ nat j)"
  by (simp add: power_int_def)

lemma floor_log2_bounds:
  assumes "0 < x"
  shows "2 powi \<lfloor>log 2 x\<rfloor> \<le> x" "x < 2 powi (\<lfloor>log 2 x\<rfloor> + 1)"
proof -
  have "2 powr of_int \<lfloor>log 2 x\<rfloor> \<le> x \<and> x < 2 powr (of_int \<lfloor>log 2 x\<rfloor> + 1)"
    using floor_log_eq_powr_iff[OF assms, of 2 "\<lfloor>log 2 x\<rfloor>"] by simp
  then show "2 powi \<lfloor>log 2 x\<rfloor> \<le> x" "x < 2 powi (\<lfloor>log 2 x\<rfloor> + 1)"
    using powr_real_of_int'[of 2 "\<lfloor>log 2 x\<rfloor>"] powr_real_of_int'[of 2 "\<lfloor>log 2 x\<rfloor> + 1"]
    by simp_all
qed

lemma floor_log2_ge:
  assumes "0 < x" "2 powi k \<le> x"
  shows "k \<le> \<lfloor>log 2 x\<rfloor>"
proof (rule ccontr)
  assume "\<not> k \<le> \<lfloor>log 2 x\<rfloor>"
  then have "\<lfloor>log 2 x\<rfloor> + 1 \<le> k" by simp
  then have "(2::real) powi (\<lfloor>log 2 x\<rfloor> + 1) \<le> 2 powi k"
    by (intro power_int_increasing) simp_all
  with floor_log2_bounds(2)[OF assms(1)] assms(2) show False by linarith
qed

lemma floor_log2_less:
  assumes "0 < x" "x < 2 powi k"
  shows "\<lfloor>log 2 x\<rfloor> < k"
proof (rule ccontr)
  assume "\<not> \<lfloor>log 2 x\<rfloor> < k"
  then have "k \<le> \<lfloor>log 2 x\<rfloor>" by simp
  then have "(2::real) powi k \<le> 2 powi \<lfloor>log 2 x\<rfloor>"
    by (intro power_int_increasing) simp_all
  with floor_log2_bounds(1)[OF assms(1)] assms(2) show False by linarith
qed

lemma float_round_eq:
  assumes "x \<noteq> 0" "e = max \<lfloor>log 2 \<bar>x\<bar>\<rfloor> (- 1022)"
  shows "float_round x = of_int (round_half_even (x / 2 powi (e - 52))) * 2 powi (e - 52)"
  using assms by (simp add: float_round_def Let_def)

lemma float_round_zero [simp]: "float_round 0 = 0"
  by (simp add: float_round_def)

lemma float_round_minus: "float_round (- x) = - float_round x"
  by (simp add: float_round_def Let_def round_half_even_minus)

lemma float_round_grid_ge:
  assumes "0 < x" "e = max \<lfloor>log 2 x\<rfloor> (- 1022)" "e - 52 \<le> k" "2 powi k \<le> x"
  shows "2 powi k \<le> float_round x"
proof -
  define u :: real where "u = 2 powi (e - 52)"
  define N :: int where "N = 2 ^ nat (k - (e - 52))"
  have u: "0 < u" by (simp add: u_def)
  have "(2::real) powi k = 2 powi (k - (e - 52)) * u"
    unfolding u_def by (rule two_powi_split)
  also have "(2::real) powi (k - (e - 52)) = of_int N"
    unfolding N_def using assms(3) by (intro two_powi_int) simp
  finally have k: "2 powi k = of_int N * u" .
  with assms(4) u have "of_int N \<le> x / u" by (simp add: pos_le_divide_eq)
  then have "N \<le> round_half_even (x / u)" by (rule round_half_even_ge)
  then have "of_int N * u \<le> of_int (round_half_even (x / u)) * u"
    using u by (intro mult_right_mono) simp_all
  moreover have "float_round x = of_int (round_half_even (x / u)) * u"
    unfolding u_def using assms(1,2) by (intro float_round_eq) simp_all
  ultimately show ?thesis using k by simp
qed

lemma float_round_grid_le:
  assumes "0 < x" "e = max \<lfloor>log 2 x\<rfloor> (- 1022)" "e - 52 \<le> k" "x \<le> 2 powi k"
  shows "float_round x \<le> 2 powi k"
proof -
  define u :: real where "u = 2 powi (e - 52)"
  define N :: int where "N = 2 ^ nat (k - (e - 52))"
  have u: "0 < u" by (simp add: u_def)
  have "(2::real) powi k = 2 powi (k - (e - 52)) * u"
    unfolding u_def by (rule two_powi_split)
  also have "(2::real) powi (k - (e - 52)) = of_int N"
    unfolding N_def using assms(3) by (intro two_powi_int) simp
  finally have k: "2 powi k = of_int N * u" .
  with assms(4) u have "x / u \<le> of_int N" by (simp add: pos_divide_le_eq)
  then have "round_half_even (x / u) \<le> N" by (rule round_half_even_le)
  then have "of_int (round_half_even (x / u)) * u \<le> of_int N * u"
    using u by (intro mult_right_mono) simp_all
  moreover have "float_round x = of_int (round_half_even (x / u)) * u"
    unfolding u_def using assms(1,2) by (intro float_round_eq) simp_all
  ultimately show ?thesis using k by simp
qed

lemma float_round_ge_pow2:
  assumes "- 1074 \<le> k" "2 powi k \<le> x"
  shows "2 powi k \<le> float_round x"
proof -
  have "(0::real) < 2 powi k" by simp
  with assms(2) have x: "0 < x" by linarith
  have kl: "k \<le> \<lfloor>log 2 x\<rfloor>" using x assms(2) by (rule floor_log2_ge)
  show ?thesis
  proof (cases "- 1022 \<le> \<lfloor>log 2 x\<rfloor>")
    case True
    then have e: "\<lfloor>log 2 x\<rfloor> = max \<lfloor>log 2 x\<rfloor> (- 1022)" by simp
    have "2 powi \<lfloor>log 2 x\<rfloor> \<le> float_round x"
      using x e _ floor_log2_bounds(1)[OF x] by (rule float_round_grid_ge) simp
    moreover have "(2::real) powi k \<le> 2 powi \<lfloor>log 2 x\<rfloor>"
      using kl by (intro power_int_increasing) simp_all
    ultimately show ?thesis by linarith
  next
    case False
    then have e: "- 1022 = max \<lfloor>log 2 x\<rfloor> (- 1022)" by simp
    show ?thesis using x e _ assms(2) by (rule float_round_grid_ge) (use assms(1) in simp)
  qed
qed

lemma float_round_le_pow2:
  assumes "0 < x" "- 1074 \<le> k" "x \<le> 2 powi k"
  shows "float_round x \<le> 2 powi k"
proof -
  have "\<lfloor>log 2 x\<rfloor> < k + 1"
  proof (rule floor_log2_less[OF assms(1)])
    have "(2::real) powi k < 2 powi (k + 1)" by (intro power_int_strict_increasing) simp_all
    with assms(3) show "x < 2 powi (k + 1)" by linarith
  qed
  then have "max \<lfloor>log 2 x\<rfloor> (- 1022) - 52 \<le> k" using assms(2) by simp
  with assms(1) refl show ?thesis using assms(3) by (rule float_round_grid_le)
qed

lemma float_round_nonneg:
  assumes "0 \<le> x"
  shows "0 \<le> float_round x"
proof (cases "x = 0")
  case True
  then show ?thesis by simp
next
  case False
  define u :: real where "u = 2 powi (max \<lfloor>log 2 \<bar>x\<bar>\<rfloor> (- 1022) - 52)"
  have u: "0 < u" by (simp add: u_def)
  have "of_int 0 \<le> x / u" using assms u by simp
  then have "0 \<le> round_half_even (x / u)" by (rule round_half_even_ge)
  moreover have "float_round x = of_int (round_half_even (x / u)) * u"
    unfolding u_def using False by (intro float_round_eq) simp_all
  ultimately show ?thesis using u by simp
qed

lemma float_round_pow2:
  assumes "- 1074 \<le> k"
  shows "float_round (2 powi k) = 2 powi k"
proof (rule antisym)
  show "float_round (2 powi k) \<le> 2 powi k" using assms by (intro float_round_le_pow2) simp_all
  show "2 powi k \<le> float_round (2 powi k)" using assms by (intro float_round_ge_pow2) simp_all
qed

lemma float_round_mono_nonneg:
  assumes "0 \<le> x" "x \<le> y"
  shows "float_round x \<le> float_round y"
proof (cases "x = 0")
  case True
  then show ?thesis using assms float_round_nonneg[of y] by simp
next
  case False
  then have x: "0 < x" and y: "0 < y" using assms by simp_all
  define lx where "lx = \<lfloor>log 2 x\<rfloor>"
  define ly where "ly = \<lfloor>log 2 y\<rfloor>"
  define ex where "ex = max lx (- 1022)"
  define ey where "ey = max ly (- 1022)"
  have "log 2 x \<le> log 2 y" using x assms(2) by (intro log_mono) simp_all
  then have l: "lx \<le> ly" unfolding lx_def ly_def by (rule floor_mono)
  show ?thesis
  proof (cases "ex = ey")
    case True
    define u :: real where "u = 2 powi (ex - 52)"
    have u: "0 < u" by (simp add: u_def)
    have fx: "float_round x = of_int (round_half_even (x / u)) * u"
      unfolding u_def using x by (intro float_round_eq) (simp_all add: ex_def lx_def)
    have fy: "float_round y = of_int (round_half_even (y / u)) * u"
      unfolding u_def True using y by (intro float_round_eq) (simp_all add: ey_def ly_def)
    have "x / u \<le> y / u" using assms(2) u by (simp add: divide_right_mono)
    then have "round_half_even (x / u) \<le> round_half_even (y / u)" by (rule round_half_even_mono)
    then show ?thesis unfolding fx fy using u by (intro mult_right_mono) simp_all
  next
    case False
    with l have lt: "ex + 1 \<le> ly" "lx \<le> ex" "- 1022 \<le> ex" by (simp_all add: ex_def ey_def)
    have "x < 2 powi (lx + 1)" unfolding lx_def using x by (rule floor_log2_bounds(2))
    also have "(2::real) powi (lx + 1) \<le> 2 powi (ex + 1)"
      using lt(2) by (intro power_int_increasing) simp_all
    finally have "float_round x \<le> 2 powi (ex + 1)"
      using x lt(3) by (intro float_round_le_pow2) simp_all
    moreover have "(2::real) powi (ex + 1) \<le> 2 powi ly"
      using lt(1) by (intro power_int_increasing) simp_all
    moreover have "2 powi ly \<le> float_round y"
    proof (rule float_round_ge_pow2)
      show "- 1074 \<le> ly" using lt by linarith
      show "2 powi ly \<le> y" unfolding ly_def using y by (rule floor_log2_bounds(1))
    qed
    ultimately show ?thesis by linarith
  qed
qed

lemma float_round_mono:
  assumes "x \<le> y"
  shows "float_round x \<le> float_round y"
proof (cases "0 \<le> x")
  case True
  then show ?thesis using assms by (rule float_round_mono_nonneg)
next
  case False
  show ?thesis
  proof (cases "0 \<le> y")
    case True
    have "0 \<le> float_round (- x)" using False by (intro float_round_nonneg) simp
    then show ?thesis using float_round_nonneg[OF True] by (simp add: float_round_minus)
  next
    case False
    then have "float_round (- y) \<le> float_round (- x)"
      using assms by (intro float_round_mono_nonneg) simp_all
    then show ?thesis by (simp add: float_round_minus)
  qed
qed

lemma float_round_exact:
  assumes "- 1074 \<le> k" "\<bar>m\<bar> < 2 ^ 53"
  shows "float_round (of_int m * 2 powi k) = of_int m * 2 powi k"
proof (cases "m = 0")
  case True
  then show ?thesis by simp
next
  case False
  define x :: real where "x = of_int m * 2 powi k"
  have ax: "\<bar>x\<bar> = of_int \<bar>m\<bar> * 2 powi k" by (simp add: x_def abs_mult)
  have x0: "x \<noteq> 0" using False by (simp add: x_def)
  then have pos: "0 < \<bar>x\<bar>" by simp
  define e where "e = max \<lfloor>log 2 \<bar>x\<bar>\<rfloor> (- 1022)"
  have "of_int \<bar>m\<bar> < (2::real) ^ 53" using assms(2) by (metis of_int_less_iff of_int_numeral of_int_power)
  then have "\<bar>x\<bar> < 2 ^ 53 * 2 powi k" unfolding ax by (intro mult_strict_right_mono) simp_all
  also have "\<dots> = 2 powi (k + 53)" by (simp add: power_int_add)
  finally have "\<lfloor>log 2 \<bar>x\<bar>\<rfloor> < k + 53" by (rule floor_log2_less[OF pos])
  then have ek: "e - 52 \<le> k" using assms(1) by (simp add: e_def)
  define N :: int where "N = 2 ^ nat (k - (e - 52))"
  have "(2::real) powi k = 2 powi (k - (e - 52)) * 2 powi (e - 52)" by (rule two_powi_split)
  also have "(2::real) powi (k - (e - 52)) = of_int N"
    unfolding N_def using ek by (intro two_powi_int) simp
  finally have k: "(2::real) powi k = of_int N * 2 powi (e - 52)" .
  have "x / 2 powi (e - 52) = of_int (m * N)" by (simp add: x_def k)
  then have "round_half_even (x / 2 powi (e - 52)) = m * N" by (simp only: round_half_even_of_int)
  then have "float_round x = of_int (m * N) * 2 powi (e - 52)"
    using float_round_eq[OF x0 e_def] by simp
  also have "\<dots> = x" by (simp add: x_def k)
  finally show ?thesis by (simp add: x_def)
qed


lemma float_round_values:
  "float_round 1 = 1" "float_round 2 = 2" "float_round 4 = 4" "float_round (1 / 2) = 1 / 2"
  "float_round (- 1) = - 1" "float_round (- 2) = - 2"
  using float_round_pow2[of 0] float_round_pow2[of 1] float_round_pow2[of 2]
    float_round_pow2[of "- 1"] float_round_minus[of 1] float_round_minus[of 2]
  by (simp_all add: power_int_minus inverse_eq_divide)

lemma round_half_even_half:
  "round_half_even (of_int n + 1 / 2) = (if even n then n else n + 1)"
proof -
  have "\<lfloor>of_int n + 1 / 2 :: real\<rfloor> = n" by (rule floor_unique) simp_all
  then show ?thesis by (simp add: round_half_even_def Let_def)
qed

lemma float_round_tie_above_one: "float_round (1 + 2 powi (- 53)) = 1"
proof -
  define x :: real where "x = 1 + 2 powi (- 53)"
  have x: "0 < x" "2 powi 0 \<le> x" "x < 2 powi 1" by (simp_all add: x_def power_int_minus)
  have "0 \<le> \<lfloor>log 2 x\<rfloor>" using x(1,2) by (rule floor_log2_ge)
  moreover have "\<lfloor>log 2 x\<rfloor> < 1" using x(1,3) by (rule floor_log2_less)
  ultimately have l: "\<lfloor>log 2 x\<rfloor> = 0" by linarith
  have a: "\<bar>x\<bar> = x" using x(1) by simp
  have e: "0 = max \<lfloor>log 2 \<bar>x\<bar>\<rfloor> (- 1022)" unfolding a l by simp
  have "x / 2 powi (0 - 52) = of_int (2 ^ 52) + 1 / 2"
    by (simp add: x_def power_int_minus field_simps)
  then have "round_half_even (x / 2 powi (0 - 52)) = 2 ^ 52"
    by (simp only: round_half_even_half) simp
  moreover have "x \<noteq> 0" using x(1) by simp
  ultimately have "float_round x = of_int (2 ^ 52) * 2 powi (0 - 52)"
    using float_round_eq[OF _ e] by simp
  then show ?thesis by (simp add: x_def power_int_minus)
qed

lemma float_round_one_plus_tiny:
  assumes "0 \<le> z" "z \<le> 2 powi (- 53)"
  shows "float_round (1 + z) = 1"
proof (rule antisym)
  have "float_round (1 + z) \<le> float_round (1 + 2 powi (- 53))"
    using assms by (intro float_round_mono) simp
  then show "float_round (1 + z) \<le> 1" by (simp only: float_round_tie_above_one)
  have "float_round 1 \<le> float_round (1 + z)" using assms by (intro float_round_mono) simp
  then show "1 \<le> float_round (1 + z)" by (simp only: float_round_values)
qed

lemma ln2_bounds: "0 < ln (2::real)" "ln (2::real) \<le> 1"
  using ln_le_minus_one[of "2::real"] by simp_all

lemma log2_le_ln:
  assumes "0 < x" "x \<le> 1"
  shows "log 2 x \<le> ln x"
proof -
  have "ln x \<le> 0" using assms by simp
  then have "ln x / 1 \<ge> ln x / ln 2"
    using ln2_bounds by (intro divide_left_mono_neg) simp_all
  then show ?thesis by (simp add: log_def)
qed

lemma ln_le_log2:
  assumes "1 \<le> x"
  shows "ln x \<le> log 2 x"
proof -
  have "0 \<le> ln x" using assms by simp
  then have "ln x / 1 \<le> ln x / ln 2"
    using ln2_bounds by (intro divide_left_mono) simp_all
  then show ?thesis by (simp add: log_def)
qed

lemma exponent_positive:
  assumes "2 powi (- 52) \<le> z"
  shows "0 < float_round (log 2 (float_round (1 + z)))"
proof -
  define u :: real where "u = 2 powi (- 52)"
  have u: "0 \<le> u" "u \<le> 1 / 2" by (simp_all add: u_def power_int_minus)
  have "float_round (of_int (2 ^ 52 + 1) * 2 powi (- 52)) = of_int (2 ^ 52 + 1) * 2 powi (- 52)"
    by (rule float_round_exact) simp_all
  then have "float_round (1 + u) = 1 + u" by (simp add: u_def power_int_minus field_simps)
  moreover have "float_round (1 + u) \<le> float_round (1 + z)"
    using assms by (intro float_round_mono) (simp add: u_def)
  ultimately have s: "1 + u \<le> float_round (1 + z)" by simp
  have "u - u\<^sup>2 \<le> ln (1 + u)" using u by (intro ln_one_plus_pos_lower_bound) simp_all
  moreover have "u * u \<le> u * (1 / 2)" using u by (intro mult_left_mono) simp_all
  ultimately have "u / 2 \<le> ln (1 + u)" by (simp add: power2_eq_square)
  also have "\<dots> \<le> log 2 (1 + u)" using u by (intro ln_le_log2) simp
  also have "\<dots> \<le> log 2 (float_round (1 + z))" using s u by (intro log_mono) simp_all
  finally have "2 powi (- 53) \<le> log 2 (float_round (1 + z))"
    by (simp add: u_def power_int_minus)
  then have "2 powi (- 53) \<le> float_round (log 2 (float_round (1 + z)))"
    by (intro float_round_ge_pow2) simp_all
  moreover have "(0::real) < 2 powi (- 53)" by simp
  ultimately show ?thesis by linarith
qed

lemma exponent_zero:
  assumes "0 \<le> z" "z \<le> 2 powi (- 53)"
  shows "float_round (log 2 (float_round (1 + z))) = 0"
  using float_round_one_plus_tiny[OF assms] by simp

lemma exponent_negative:
  assumes "z \<le> - (2 powi (- 53))" "0 < float_round (1 + z)"
  shows "float_round (log 2 (float_round (1 + z))) < 0"
proof -
  define u :: real where "u = 2 powi (- 53)"
  define t where "t = float_round (1 + z)"
  have u: "0 < u" "u < 1" by (simp_all add: u_def power_int_minus)
  have "float_round (of_int (2 ^ 53 - 1) * 2 powi (- 53)) = of_int (2 ^ 53 - 1) * 2 powi (- 53)"
    by (rule float_round_exact) simp_all
  then have "float_round (1 - u) = 1 - u" by (simp add: u_def power_int_minus field_simps)
  moreover have "t \<le> float_round (1 - u)"
    unfolding t_def using assms(1) by (intro float_round_mono) (simp add: u_def)
  ultimately have s: "t \<le> 1 - u" by simp
  have t: "0 < t" using assms(2) by (simp add: t_def)
  have "log 2 t \<le> ln t" using t s u by (intro log2_le_ln) simp_all
  also have "\<dots> \<le> t - 1" using t by (rule ln_le_minus_one)
  finally have "2 powi (- 53) \<le> - log 2 t" using s by (simp add: u_def)
  then have "2 powi (- 53) \<le> float_round (- log 2 t)"
    by (intro float_round_ge_pow2) simp_all
  moreover have "(0::real) < 2 powi (- 53)" by simp
  ultimately show ?thesis unfolding t_def float_round_minus by linarith
qed

section \<open>Properties of the arithmetic\<close>

lemma bnd_simps:
  "bnd (Inl e) f = Inl e"
  "bnd (Inr v) f = f v"
  by (simp_all add: bnd_def)

lemma float_limit_gt_one: "1 < float_limit_int" "1 < float_limit"
  by (simp_all add: float_limit_def float_limit_int_def)

lemma to_float_simps:
  "\<bar>i\<bar> < float_limit_int \<Longrightarrow> to_float i = Inr (of_int i)"
  "float_limit_int \<le> \<bar>i\<bar> \<Longrightarrow> to_float i = Inl OverflowError"
  by (simp_all add: to_float_def)

lemma as_float_real: "as_float v = Some (Inr r) \<Longrightarrow> real_of_py v = Some r"
  by (cases v) (auto simp add: to_float_def split: if_splits)

lemma as_float_complex: "as_float v = Some (Inr r) \<Longrightarrow> complex_of_py v = Some (of_real r)"
  by (cases v) (auto simp add: to_float_def split: if_splits)

lemma as_float_int:
  assumes "as_float v = Some (Inr r)" "int_of v = Some i"
  shows "r = of_int i" "\<bar>i\<bar> < float_limit_int"
  using assms float_limit_gt_one(1) by (cases v; auto simp add: to_float_def split: if_splits)+

lemma as_float_not_int:
  assumes "as_float v = Some (Inr r)" "int_of v = None"
  shows "v = PFloat r"
  using assms by (cases v) simp_all

lemma is_int_or_float_real:
  "is_int_or_float v \<Longrightarrow> \<exists>r. real_of_py v = Some r"
  by (cases v) simp_all

lemma py_mul_float_left:
  "as_float b = Some (Inr rb) \<Longrightarrow> py_mul (PFloat a) b = Inr (PFloat (a * rb))"
  by (cases b) (simp_all add: py_mul_def arith_def bnd_simps)

lemma py_mul_float_right:
  "as_float a = Some (Inr ra) \<Longrightarrow> py_mul a (PFloat b) = Inr (PFloat (ra * b))"
  by (cases a) (simp_all add: py_mul_def arith_def bnd_simps)

lemma py_mul_overflow:
  "float_limit_int \<le> \<bar>i\<bar> \<Longrightarrow> py_mul (PInt i) (PFloat b) = Inl OverflowError"
  by (simp add: py_mul_def arith_def bnd_simps to_float_def)

lemma py_mul_float_complex: "py_mul (PFloat a) (PComplex c) = Inr (PComplex (of_real a * c))"
  by (simp add: py_mul_def arith_def bnd_simps)

lemma py_sub_values:
  "py_sub (PFloat a) (PFloat b) = Inr (PFloat (a - b))"
  "py_sub (PFloat a) (PComplex d) = Inr (PComplex (of_real a - d))"
  "py_sub (PComplex c) (PFloat b) = Inr (PComplex (c - of_real b))"
  "py_sub (PComplex c) (PComplex d) = Inr (PComplex (c - d))"
  by (simp_all add: py_sub_def arith_def bnd_simps)

lemma py_truediv_floats:
  assumes "as_float x = Some (Inr r)" "as_float y = Some (Inr b)" "b \<noteq> 0"
    and "\<bar>r / b\<bar> < float_limit"
  shows "py_truediv x y = Inr (PFloat (r / b))"
proof (cases "int_of x")
  case None
  with assms(1) have "x = PFloat r" by (rule as_float_not_int)
  then show ?thesis using assms(2,3) by (cases y) (simp_all add: py_truediv_def arith_def bnd_simps)
next
  case (Some i)
  note i = as_float_int[OF assms(1) Some]
  show ?thesis
  proof (cases "int_of y")
    case None
    with assms(2) have "y = PFloat b" by (rule as_float_not_int)
    then show ?thesis using assms(1,3) Some by (simp add: py_truediv_def arith_def bnd_simps)
  next
    case j: (Some j)
    note j' = as_float_int[OF assms(2) j]
    show ?thesis using Some j i(1) j'(1) assms(3,4)
      by (simp add: py_truediv_def arith_def)
  qed
qed

lemma py_add_floats:
  assumes "as_float a = Some (Inr ra)" "as_float b = Some (Inr rb)"
    and "\<bar>ra + rb\<bar> < float_limit"
  shows "\<exists>s. py_add a b = Inr s \<and> as_float s = Some (Inr (ra + rb))"
proof (cases "int_of a")
  case None
  with assms(1) have "a = PFloat ra" by (rule as_float_not_int)
  then show ?thesis using assms(2) by (cases b) (simp_all add: py_add_def arith_def bnd_simps)
next
  case (Some i)
  note i = as_float_int[OF assms(1) Some]
  show ?thesis
  proof (cases "int_of b")
    case None
    with assms(2) have b: "b = PFloat rb" by (rule as_float_not_int)
    show ?thesis using assms(1) Some unfolding b
      by (cases a) (simp_all add: py_add_def arith_def bnd_simps)
  next
    case j: (Some j)
    note j' = as_float_int[OF assms(2) j]
    have "\<bar>of_int (i + j) :: real\<bar> < of_int float_limit_int"
      using assms(3) by (simp add: i(1) j'(1) float_limit_def)
    then have "\<bar>i + j\<bar> < float_limit_int"
      by (metis of_int_abs of_int_less_iff)
    moreover have "py_add a b = Inr (PInt (i + j))"
      using Some j by (cases a; cases b) (simp_all add: py_add_def arith_def)
    ultimately show ?thesis by (simp add: to_float_def i(1) j'(1))
  qed
qed

lemma log2_values:
  "log 2 (1 / 2) = - 1" "log 2 4 = 2"
  "(2::real) powr (- 1) = 1 / 2"
  using log_inverse[of 2 2] log_nat_power[of 2 2 2]
  by (simp_all add: inverse_eq_divide powr_minus_divide)

section \<open>The ILF curve\<close>

lemma ilf_float_pow:
  assumes "as_float x = Some (Inr r)" "as_float base_limit = Some (Inr b)" "b \<noteq> 0"
    and "\<bar>r / b\<bar> < float_limit" "0 < float_round (1 + z)"
  shows "ilf x base_limit z =
         float_pow (float_round (r / b)) (float_round (log 2 (float_round (1 + z))))"
  using assms(5)
  by (simp add: ilf_def py_truediv_floats[OF assms(1-4)] rounded_def bnd_simps math_log2_def
      py_pow_def)

lemma float_pow_nonneg_base:
  assumes "0 \<le> q"
  shows "float_pow q p =
     (if p = 0 then Inr (PFloat 1)
      else if q = 0 then (if p < 0 then Inl ZeroDivisionError else Inr (PFloat 0))
      else if float_limit \<le> q powr p then Inl OverflowError
      else Inr (PFloat (q powr p)))"
  using assms by (simp add: float_pow_def)

lemma ilf_at:
  assumes "as_float x = Some (Inr r)" "as_float base_limit = Some (Inr b)" "b \<noteq> 0"
    and "\<bar>r / b\<bar> < float_limit" "float_round (1 + z) = s" "0 < s"
    and "float_round (log 2 s) = p" "float_round (r / b) = q"
  shows "ilf x base_limit z = float_pow q p"
  using ilf_float_pow[OF assms(1-4), of z] assms(5-8) by simp

text \<open>
  C4, as stated, for every \<open>z > -1\<close>: it fails where the exponent, the float
  \<^verbatim>\<open>math.log2(1+z)\<close>, is not positive, and where the power overflows. The float
  \<^verbatim>\<open>1 + 1e-17\<close> is 1, so the exponent is 0 and \<open>ilf(0, 1000000, 1e-17)\<close> is 1, not 0, as
  is \<open>ilf(0, 1, 0)\<close>. With \<open>z = -1/2\<close> the exponent is \<open>-1\<close>: the curve decreases from
  \<open>ilf(1) = 1\<close> to \<open>ilf(2) = 1/2\<close>, and \<open>ilf(0)\<close> raises ZeroDivisionError. With
  \<open>z = 3\<close> the exponent is 2 and \<open>ilf(2^600, 1, 3)\<close> raises OverflowError.
\<close>

theorem ilf_counterexample:
  "ilf (PInt 0) (PInt 1000000) (1 / 10 ^ 17) = Inr (PFloat 1)
   \<and> ilf (PInt 0) (PInt 1) 0 = Inr (PFloat 1)
   \<and> ilf (PInt 1) (PInt 1) (- 1 / 2) = Inr (PFloat 1)
   \<and> ilf (PInt 2) (PInt 1) (- 1 / 2) = Inr (PFloat (1 / 2))
   \<and> ilf (PInt 0) (PInt 1) (- 1 / 2) = Inl ZeroDivisionError
   \<and> ilf (PInt (2 ^ 600)) (PInt 1) 3 = Inl OverflowError"
proof -
  have c: "as_float (PInt 0) = Some (Inr 0)" "as_float (PInt 1) = Some (Inr 1)"
    "as_float (PInt 2) = Some (Inr 2)" "as_float (PInt 1000000) = Some (Inr 1000000)"
    "as_float (PInt (2 ^ 600)) = Some (Inr (2 ^ 600))"
    by (simp_all add: to_float_def float_limit_int_def)
  have l: "(1::real) / 2 < float_limit" "(2::real) ^ 600 < float_limit"
    "float_limit \<le> 2 ^ 1200" "(1::real) < float_limit" "(2::real) < float_limit"
    "(0::real) < float_limit"
    by (simp_all add: float_limit_def float_limit_int_def)
  have t: "float_round (1 + 1 / 10 ^ 17) = 1"
    by (rule float_round_one_plus_tiny) (simp_all add: power_int_minus field_simps)
  have p6: "float_round (2 ^ 600) = 2 ^ 600" using float_round_pow2[of 600] by simp
  have 1: "ilf (PInt 0) (PInt 1000000) (1 / 10 ^ 17) = float_pow 0 0"
    by (rule ilf_at[OF c(1) c(4) _ _ t]) (simp_all add: l float_round_values)
  have 2: "ilf (PInt 0) (PInt 1) 0 = float_pow 0 0"
    by (rule ilf_at[OF c(1) c(2), where s = 1]) (simp_all add: l float_round_values)
  have h: "float_round (1 + - 1 / 2) = 1 / 2" "float_round (log 2 (1 / 2)) = - 1"
    by (simp_all add: float_round_values log2_values)
  have 3: "ilf (PInt 1) (PInt 1) (- 1 / 2) = float_pow 1 (- 1)"
    by (rule ilf_at[OF c(2) c(2) _ _ h(1) _ h(2)]) (simp_all add: l float_round_values)
  have 4: "ilf (PInt 2) (PInt 1) (- 1 / 2) = float_pow 2 (- 1)"
    by (rule ilf_at[OF c(3) c(2) _ _ h(1) _ h(2)]) (simp_all add: l float_round_values)
  have 5: "ilf (PInt 0) (PInt 1) (- 1 / 2) = float_pow 0 (- 1)"
    by (rule ilf_at[OF c(1) c(2) _ _ h(1) _ h(2)]) (simp_all add: l float_round_values)
  have g: "float_round (1 + 3) = 4" "float_round (log 2 4) = 2"
    by (simp_all add: float_round_values log2_values)
  have 6: "ilf (PInt (2 ^ 600)) (PInt 1) 3 = float_pow (2 ^ 600) 2"
    by (rule ilf_at[OF c(5) c(2) _ _ g(1) _ g(2)]) (use l(2) p6 in simp_all)
  have v: "float_pow 0 0 = Inr (PFloat 1)" "float_pow 1 (- 1) = Inr (PFloat 1)"
    "float_pow 2 (- 1) = Inr (PFloat (1 / 2))" "float_pow 0 (- 1) = Inl ZeroDivisionError"
    "float_pow (2 ^ 600) 2 = Inl OverflowError"
    using l by (simp_all add: float_pow_def log2_values flip: power_mult)
  show ?thesis unfolding 1 2 3 4 5 6 v by simp
qed


text \<open>
  C4, amended. Let \<open>p\<close> be the exponent the code computes, the float \<^verbatim>\<open>math.log2(1+z)\<close>
  of the float \<^verbatim>\<open>1+z\<close>, and \<open>q\<close> the float quotient \<^verbatim>\<open>x/base_limit\<close>, for numbers
  \<open>0 \<le> x1 \<le> x2\<close> and \<open>base_limit > 0\<close> that fit a float, with a quotient in the float
  range, and \<open>1+z > 0\<close>. The exponent is positive from \<open>z = 2^(-52)\<close> on, zero for
  \<open>0 \<le> z \<le> 2^(-53)\<close> and negative for \<open>z \<le> -2^(-53)\<close>. For \<open>q > 0\<close>, \<open>ilf\<close> returns
  \<open>q\<close> to the power \<open>p\<close>, a non-negative number, unless that power is too large for a
  float, which raises OverflowError. For \<open>q = 0\<close> it returns 0 when \<open>p > 0\<close>, returns 1
  when \<open>p = 0\<close>, and raises ZeroDivisionError when \<open>p < 0\<close>. It is non-decreasing in \<open>x\<close>
  when \<open>p \<ge> 0\<close> and non-increasing on \<open>q > 0\<close> when \<open>p < 0\<close>.
\<close>

theorem ilf_curve:
  assumes x1: "as_float x1 = Some (Inr r1)" and x2: "as_float x2 = Some (Inr r2)"
    and bl: "as_float base_limit = Some (Inr b)"
    and r: "0 \<le> r1" "r1 \<le> r2" and b: "0 < b" and fit: "r2 / b < float_limit"
    and s: "0 < float_round (1 + z)"
    and p: "p = float_round (log 2 (float_round (1 + z)))"
    and q: "q1 = float_round (r1 / b)" "q2 = float_round (r2 / b)"
  shows "0 \<le> q1 \<and> q1 \<le> q2
     \<and> (2 powi (- 52) \<le> z \<longrightarrow> 0 < p)
     \<and> (0 \<le> z \<and> z \<le> 2 powi (- 53) \<longrightarrow> p = 0)
     \<and> (z \<le> - (2 powi (- 53)) \<longrightarrow> p < 0)
     \<and> (0 < q1 \<and> q1 powr p < float_limit \<longrightarrow>
          ilf x1 base_limit z = Inr (PFloat (q1 powr p)) \<and> 0 \<le> q1 powr p)
     \<and> (0 < q1 \<and> float_limit \<le> q1 powr p \<longrightarrow> ilf x1 base_limit z = Inl OverflowError)
     \<and> (q1 = 0 \<longrightarrow>
          ilf x1 base_limit z =
            (if 0 < p then Inr (PFloat 0) else if p = 0 then Inr (PFloat 1)
             else Inl ZeroDivisionError))
     \<and> (0 \<le> p \<and> q2 powr p < float_limit \<longrightarrow>
          (\<exists>v1 v2. ilf x1 base_limit z = Inr (PFloat v1) \<and> ilf x2 base_limit z = Inr (PFloat v2)
             \<and> 0 \<le> v1 \<and> v1 \<le> v2))
     \<and> (p < 0 \<and> 0 < q1 \<and> q1 powr p < float_limit \<longrightarrow>
          (\<exists>v1 v2. ilf x1 base_limit z = Inr (PFloat v1) \<and> ilf x2 base_limit z = Inr (PFloat v2)
             \<and> 0 \<le> v2 \<and> v2 \<le> v1))"
proof -
  have d: "0 \<le> r1 / b" "r1 / b \<le> r2 / b" "0 \<le> r2 / b"
    using r b by (simp_all add: divide_right_mono)
  have q0: "0 \<le> q1" unfolding q using d(1) by (rule float_round_nonneg)
  have q12: "q1 \<le> q2" unfolding q using d(2) by (rule float_round_mono)
  have q2: "0 \<le> q2" using q0 q12 by simp
  have e1: "ilf x1 base_limit z = float_pow q1 p"
    using x1 bl _ _ refl s p[symmetric] q(1)[symmetric] by (rule ilf_at) (use b d fit in simp_all)
  have e2: "ilf x2 base_limit z = float_pow q2 p"
    using x2 bl _ _ refl s p[symmetric] q(2)[symmetric] by (rule ilf_at) (use b d fit in simp_all)
  note f1 = float_pow_nonneg_base[OF q0, of p]
  note f2 = float_pow_nonneg_base[OF q2, of p]
  have a: "2 powi (- 52) \<le> z \<longrightarrow> 0 < p" unfolding p by (simp add: exponent_positive)
  have b': "0 \<le> z \<and> z \<le> 2 powi (- 53) \<longrightarrow> p = 0" unfolding p by (simp add: exponent_zero)
  have c: "z \<le> - (2 powi (- 53)) \<longrightarrow> p < 0" unfolding p using s by (simp add: exponent_negative)
  have g: "0 < q1 \<and> q1 powr p < float_limit \<longrightarrow>
          ilf x1 base_limit z = Inr (PFloat (q1 powr p)) \<and> 0 \<le> q1 powr p"
    using float_limit_gt_one(2) by (simp add: e1 f1)
  have h: "0 < q1 \<and> float_limit \<le> q1 powr p \<longrightarrow> ilf x1 base_limit z = Inl OverflowError"
    using float_limit_gt_one(2) by (simp add: e1 f1)
  have i: "q1 = 0 \<longrightarrow>
          ilf x1 base_limit z =
            (if 0 < p then Inr (PFloat 0) else if p = 0 then Inr (PFloat 1)
             else Inl ZeroDivisionError)"
    using float_pow_nonneg_base[of 0 p] by (auto simp add: e1)
  have j: "0 \<le> p \<and> q2 powr p < float_limit \<longrightarrow>
          (\<exists>v1 v2. ilf x1 base_limit z = Inr (PFloat v1) \<and> ilf x2 base_limit z = Inr (PFloat v2)
             \<and> 0 \<le> v1 \<and> v1 \<le> v2)"
  proof
    assume h: "0 \<le> p \<and> q2 powr p < float_limit"
    then have m: "q1 powr p \<le> q2 powr p" using q0 q12 by (intro powr_mono2) simp_all
    with h have l: "q1 powr p < float_limit" by simp
    show "\<exists>v1 v2. ilf x1 base_limit z = Inr (PFloat v1) \<and> ilf x2 base_limit z = Inr (PFloat v2)
             \<and> 0 \<le> v1 \<and> v1 \<le> v2"
      using h m l q12 q0 by (auto simp add: e1 e2 f1 f2)
  qed
  have k: "p < 0 \<and> 0 < q1 \<and> q1 powr p < float_limit \<longrightarrow>
          (\<exists>v1 v2. ilf x1 base_limit z = Inr (PFloat v1) \<and> ilf x2 base_limit z = Inr (PFloat v2)
             \<and> 0 \<le> v2 \<and> v2 \<le> v1)"
  proof
    assume h: "p < 0 \<and> 0 < q1 \<and> q1 powr p < float_limit"
    then have m: "q2 powr p \<le> q1 powr p" using q12 by (intro powr_mono2') simp_all
    with h have l: "q2 powr p < float_limit" by simp
    show "\<exists>v1 v2. ilf x1 base_limit z = Inr (PFloat v1) \<and> ilf x2 base_limit z = Inr (PFloat v2)
             \<and> 0 \<le> v2 \<and> v2 \<le> v1"
      using h m l q12 by (auto simp add: e1 e2 f1 f2)
  qed
  from q0 q12 a b' c g h i j k show ?thesis by blast
qed

theorem ilf_curve_witness:
  "ilf (PInt 0) (PInt 1) 1 = Inr (PFloat 0) \<and> ilf (PInt 2) (PInt 1) 1 = Inr (PFloat 2)
   \<and> ilf (PInt 0) (PInt 1) (1 / 10 ^ 17) = Inr (PFloat 1)
   \<and> ilf (PInt 2) (PInt 1) (1 / 10 ^ 17) = Inr (PFloat 1)"
proof -
  have c: "as_float (PInt 0) = Some (Inr 0)" "as_float (PInt 1) = Some (Inr 1)"
    "as_float (PInt 2) = Some (Inr 2)"
    by (simp_all add: to_float_def float_limit_int_def)
  have l: "(2::real) / 1 < float_limit" "(2::real) powr 1 < float_limit"
    using float_limit_gt_one(2) by (simp_all add: float_limit_def float_limit_int_def)
  have s: "float_round (1 + 1) = 2" "float_round (log 2 2) = 1" "float_round (0 / 1) = 0"
    "float_round (2 / 1) = 2"
    by (simp_all add: float_round_values)
  have t: "float_round (1 + 1 / 10 ^ 17) = 1"
    by (rule float_round_one_plus_tiny) (simp_all add: power_int_minus field_simps)
  have "ilf (PInt 0) (PInt 1) 1 = Inr (PFloat 0)"
    using ilf_curve[OF c(1) c(3) c(2) _ _ _ l(1), of 1 1 0 2] s by simp
  moreover have "ilf (PInt 2) (PInt 1) 1 = Inr (PFloat 2)"
    using ilf_curve[OF c(3) c(3) c(2) _ _ _ l(1), of 1 1 2 2] s l(2) by simp
  moreover have "ilf (PInt 0) (PInt 1) (1 / 10 ^ 17) = Inr (PFloat 1)"
    using ilf_curve[OF c(1) c(3) c(2) _ _ _ l(1), of "1 / 10 ^ 17" 0 0 2] s
    unfolding t by simp
  moreover have "ilf (PInt 2) (PInt 1) (1 / 10 ^ 17) = Inr (PFloat 1)"
    using ilf_curve[OF c(3) c(3) c(2) _ _ _ l(1), of "1 / 10 ^ 17" 0 2 2] s
      float_limit_gt_one(2)
    unfolding t by simp
  ultimately show ?thesis by blast
qed

section \<open>Validation\<close>

lemma py_lt_zero:
  "is_int_or_float v \<Longrightarrow> py_lt v (PInt 0) = Inr (negative v)"
  by (cases v) (simp_all add: py_lt_def negative_def)

lemma validate_drone_first_failed:
  "validate_drone drone = (case first_failed_check drone of None \<Rightarrow> Inr () | Some e \<Rightarrow> Inl e)"
  by (simp add: validate_drone_def required_def first_failed_check_def getitem_def bnd_def
      py_lt_zero split: option.splits)

lemma validate_drone_ok_iff:
  "(validate_drone drone = Inr ()) =
     (\<not> missing_field drone \<and> \<not> type_mismatch drone \<and> \<not> invalid_value drone)"
  by (auto simp add: validate_drone_first_failed first_failed_check_def missing_field_def
      type_mismatch_def invalid_value_def required_def split: option.splits)

lemma validate_drone_error_kind:
  "validate_drone drone = Inl e \<Longrightarrow>
     (e = KeyError \<and> missing_field drone) \<or> (e = TypeError \<and> type_mismatch drone)
     \<or> (e = ValueError \<and> invalid_value drone)"
  by (auto simp add: validate_drone_first_failed first_failed_check_def missing_field_def
      type_mismatch_def invalid_value_def required_def split: option.splits if_splits)

lemma pricing_unchanged_on_validation_error:
  "validate_drone drone = Inl e \<Longrightarrow>
     calculate_hull_premium drone hull_base_rate weight_adj_table = (Inl e, drone)
     \<and> calculate_tpl_premium drone tpl_base_rate base_limit z = (Inl e, drone)"
  by (simp add: calculate_hull_premium_def calculate_tpl_premium_def)

lemma validate_drone_okD:
  assumes "validate_drone drone = Inr ()"
  shows "\<exists>v w l x. drone ''value'' = Some v \<and> is_int_or_float v \<and> \<not> negative v
           \<and> drone ''weight'' = Some (PStr w)
           \<and> drone ''tpl_limit'' = Some l \<and> is_int_or_float l
           \<and> drone ''tpl_excess'' = Some x \<and> is_int_or_float x"
proof -
  from assms have f: "first_failed_check drone = None"
    by (simp add: validate_drone_first_failed split: option.splits)
  then obtain v where v: "drone ''value'' = Some v" "is_int_or_float v" "\<not> negative v"
    by (auto simp add: first_failed_check_def split: option.splits if_splits)
  from f v obtain w0 where w0: "drone ''weight'' = Some w0" "is_str w0"
    by (auto simp add: first_failed_check_def split: option.splits if_splits)
  then obtain w where w: "w0 = PStr w" by (cases w0) simp_all
  from f v w0 obtain l where l: "drone ''tpl_limit'' = Some l" "is_int_or_float l"
    by (auto simp add: first_failed_check_def split: option.splits if_splits)
  from f v w0 l obtain x where x: "drone ''tpl_excess'' = Some x" "is_int_or_float x"
    by (auto simp add: first_failed_check_def split: option.splits if_splits)
  from v w0 w l x show ?thesis by blast
qed

lemma validate_drone_okI:
  assumes "drone ''value'' = Some v" "is_int_or_float v" "\<not> negative v"
    "drone ''weight'' = Some (PStr w)"
    "drone ''tpl_limit'' = Some l" "is_int_or_float l"
    "drone ''tpl_excess'' = Some x" "is_int_or_float x"
  shows "validate_drone drone = Inr ()"
  using assms by (simp add: validate_drone_first_failed first_failed_check_def)

text \<open>
  C8, as stated: a record with a missing field fails with MissingField. The checks run
  in order and the first failure is the one raised: a record with no \<^verbatim>\<open>tpl_excess\<close>
  raises TypeError when its value is a string, and ValueError when its value is
  negative, not KeyError.
\<close>

theorem validation_counterexample:
  "validate_drone drone_mistyped_value = Inl TypeError
   \<and> drone_mistyped_value ''tpl_excess'' = None
   \<and> validate_drone drone_negative_value = Inl ValueError
   \<and> drone_negative_value ''tpl_excess'' = None"
  by (simp add: validate_drone_first_failed first_failed_check_def negative_def
      drone_negative_value_def drone_mistyped_value_def)

text \<open>
  C8, amended: validation raises the error of the first check that fails, in the order
  value (present, numeric, not negative), weight (present, a string), tpl_limit and
  tpl_excess (present, numeric). It succeeds exactly when no field is missing, none is
  mistyped and the value is not negative; a KeyError implies a missing field, a
  TypeError a mistyped one, a ValueError a negative value. When validation fails, hull
  pricing and TPL pricing raise that error and leave the record as it was.
\<close>

theorem validation_first_failed_check:
  "validate_drone drone = (case first_failed_check drone of None \<Rightarrow> Inr () | Some e \<Rightarrow> Inl e)
   \<and> ((validate_drone drone = Inr ()) =
        (\<not> missing_field drone \<and> \<not> type_mismatch drone \<and> \<not> invalid_value drone))
   \<and> (\<forall>e. validate_drone drone = Inl e \<longrightarrow>
         ((e = KeyError \<and> missing_field drone) \<or> (e = TypeError \<and> type_mismatch drone)
          \<or> (e = ValueError \<and> invalid_value drone))
         \<and> calculate_hull_premium drone hull_base_rate weight_adj_table = (Inl e, drone)
         \<and> calculate_tpl_premium drone tpl_base_rate base_limit z = (Inl e, drone))"
  using validate_drone_first_failed[of drone] validate_drone_ok_iff[of drone]
    validate_drone_error_kind[of drone]
    pricing_unchanged_on_validation_error[of drone _ hull_base_rate weight_adj_table
      tpl_base_rate base_limit z]
  by blast

theorem validation_first_failed_check_witness:
  "validate_drone drone_missing_excess = Inl KeyError
   \<and> missing_field drone_missing_excess
   \<and> calculate_hull_premium drone_missing_excess (6 / 100) example_weight_adj_table =
       (Inl KeyError, drone_missing_excess)
   \<and> calculate_tpl_premium drone_missing_excess (2 / 100) (PInt 1000000) (2 / 10) =
       (Inl KeyError, drone_missing_excess)"
proof -
  have f: "first_failed_check drone_missing_excess = Some KeyError"
    by (simp add: first_failed_check_def negative_def drone_missing_excess_def)
  from validation_first_failed_check[of drone_missing_excess "6 / 100" example_weight_adj_table
      "2 / 100" "PInt 1000000" "2 / 10"] f
  show ?thesis by auto
qed

section \<open>The extension adjuster\<close>

subsection \<open>The descending stable sort\<close>

lemma key_lt_numeric:
  assumes "real_of_py a \<noteq> None" "real_of_py b \<noteq> None"
  shows "key_lt a b = (rk a < rk b)"
  using assms by (cases a; cases b) (simp_all add: key_lt_def py_lt_def rk_def)

lemma set_insort_desc: "set (insort_desc p qs) = insert p (set qs)"
  by (induction qs) auto

lemma length_insort_desc: "length (insort_desc p qs) = Suc (length qs)"
  by (induction qs) auto

lemma sorted_insort_desc:
  assumes "sorted_wrt pair_before qs"
    and "\<forall>q \<in> set qs. snd q < snd p"
    and "real_of_py (fst p) \<noteq> None"
    and "\<forall>q \<in> set qs. real_of_py (fst q) \<noteq> None"
  shows "sorted_wrt pair_before (insort_desc p qs)"
  using assms
proof (induction qs)
  case Nil
  then show ?case by simp
next
  case (Cons q qs)
  have lt: "key_lt (fst q) (fst p) = (rk (fst q) < rk (fst p))"
    using Cons.prems(3,4) by (simp add: key_lt_numeric)
  show ?case
  proof (cases "rk (fst q) < rk (fst p)")
    case True
    have "pair_before p q" using True by (simp add: pair_before_def)
    moreover have "\<forall>x \<in> set qs. pair_before p x"
    proof
      fix x assume "x \<in> set qs"
      with Cons.prems(1) have "pair_before q x" by simp
      then have "rk (fst x) \<le> rk (fst q)" by (auto simp add: pair_before_def)
      with True show "pair_before p x" by (simp add: pair_before_def)
    qed
    ultimately show ?thesis using True lt Cons.prems(1) by simp
  next
    case False
    have "pair_before q p" using False Cons.prems(2) by (auto simp add: pair_before_def)
    moreover have "sorted_wrt pair_before (insort_desc p qs)"
      using Cons.IH Cons.prems by simp
    ultimately show ?thesis using False lt Cons.prems(1) by (simp add: set_insort_desc)
  qed
qed

lemma foldl_insort_desc:
  assumes "sorted_wrt pair_before acc"
    and "sorted_wrt (<) (map snd ps)"
    and "\<forall>q \<in> set acc. \<forall>p \<in> set ps. snd q < snd p"
    and "\<forall>q \<in> set acc \<union> set ps. real_of_py (fst q) \<noteq> None"
  shows "sorted_wrt pair_before (foldl (\<lambda>acc p. insort_desc p acc) acc ps)
       \<and> set (foldl (\<lambda>acc p. insort_desc p acc) acc ps) = set acc \<union> set ps
       \<and> length (foldl (\<lambda>acc p. insort_desc p acc) acc ps) = length acc + length ps"
  using assms
proof (induction ps arbitrary: acc)
  case Nil
  then show ?case by simp
next
  case (Cons p ps)
  have s: "sorted_wrt pair_before (insort_desc p acc)"
    using Cons.prems by (intro sorted_insort_desc) auto
  have "sorted_wrt pair_before (foldl (\<lambda>acc p. insort_desc p acc) (insort_desc p acc) ps)
       \<and> set (foldl (\<lambda>acc p. insort_desc p acc) (insort_desc p acc) ps) = set (insort_desc p acc) \<union> set ps
       \<and> length (foldl (\<lambda>acc p. insort_desc p acc) (insort_desc p acc) ps) = length (insort_desc p acc) + length ps"
    using Cons.prems s by (intro Cons.IH) (auto simp add: set_insort_desc)
  then show ?case by (simp add: set_insort_desc length_insort_desc)
qed

lemma keys_of_priced:
  assumes "list_all (numeric_field k) xs"
  shows "keys_of k xs = Inr (map (entry k) xs)"
  using assms
  by (induction xs) (auto simp add: numeric_field_def getitem_def entry_def split: option.splits)

lemma numeric_field_entry:
  "numeric_field k d \<Longrightarrow> real_of_py (entry k d) \<noteq> None \<and> rk (entry k d) = num_at k d \<and> d k = Some (entry k d)"
  by (auto simp add: numeric_field_def entry_def rk_def num_at_def split: option.splits)

lemma sorted_reverse_priced:
  assumes "list_all (numeric_field k) xs"
  shows "\<exists>os. sorted_reverse k xs = Inr os
           \<and> stable_desc (\<lambda>i. num_at k (xs ! i)) (length xs) os"
proof -
  let ?ks = "map (entry k) xs"
  let ?n = "length xs"
  let ?ps = "zip ?ks [0..<?n]"
  let ?R = "foldl (\<lambda>acc p. insort_desc p acc) [] ?ps"
  have num: "\<forall>v \<in> set ?ks. real_of_py v \<noteq> None"
  proof
    fix v assume "v \<in> set ?ks"
    then obtain d where "d \<in> set xs" "v = entry k d" by auto
    with assms show "real_of_py v \<noteq> None"
      using numeric_field_entry[of k d] by (simp add: list_all_iff)
  qed
  then have comp: "comparable ?ks" by (simp add: comparable_def list_all_iff)
  have sr: "sorted_reverse k xs = Inr (map snd ?R)"
    using keys_of_priced[OF assms] comp by (simp add: sorted_reverse_def)
  have snd_ps: "map snd ?ps = [0..<?n]" by (simp add: map_snd_zip)
  have mem: "\<forall>p \<in> set ?ps. snd p < ?n \<and> fst p = entry k (xs ! snd p)"
    by (auto simp add: set_zip)
  have "\<forall>q \<in> set [] \<union> set ?ps. real_of_py (fst q) \<noteq> None"
  proof
    fix q assume "q \<in> set [] \<union> set ?ps"
    then have "(fst q, snd q) \<in> set ?ps" by simp
    then have "fst q \<in> set ?ks" by (rule set_zip_leftD)
    with num show "real_of_py (fst q) \<noteq> None" by blast
  qed
  with foldl_insort_desc[of "[]" ?ps] snd_ps
  have R: "sorted_wrt pair_before ?R" "set ?R = set ?ps" "length ?R = ?n"
    by simp_all
  have set_os: "set (map snd ?R) = set [0..<?n]"
    using R(2) snd_ps by (metis set_map)
  have "card (set (map snd ?R)) = length (map snd ?R)"
    using set_os R(3) by simp
  then have dist: "distinct (map snd ?R)" by (rule card_distinct)
  have "sorted_wrt (\<lambda>p q. ranks_before (\<lambda>i. num_at k (xs ! i)) (snd p) (snd q)) ?R"
  proof (rule sorted_wrt_mono_rel[OF _ R(1)])
    fix p q assume p: "p \<in> set ?R" and q: "q \<in> set ?R" and b: "pair_before p q"
    from p q R(2) mem have "fst p = entry k (xs ! snd p)" "fst q = entry k (xs ! snd q)"
      "snd p < ?n" "snd q < ?n" by auto
    moreover have "numeric_field k (xs ! snd p)" "numeric_field k (xs ! snd q)"
      using assms \<open>snd p < ?n\<close> \<open>snd q < ?n\<close> by (simp_all add: list_all_length)
    ultimately show "ranks_before (\<lambda>i. num_at k (xs ! i)) (snd p) (snd q)"
      using b by (simp add: pair_before_def ranks_before_def numeric_field_entry)
  qed
  then have "sorted_wrt (ranks_before (\<lambda>i. num_at k (xs ! i))) (map snd ?R)"
    by (simp add: sorted_wrt_map)
  with sr dist set_os show ?thesis by (simp add: stable_desc_def)
qed

lemma cap_loop_ok:
  assumes "distinct js"
    and "\<forall>j \<in> set js. j < length xs \<and> (xs ! j) ''hull_premium'' \<noteq> None"
  shows "\<exists>xs'. cap_loop m flat i js xs = (Inr (), xs') \<and> length xs' = length xs
           \<and> (\<forall>q < length js. xs' ! (js ! q) = cap_entry m flat (i + q) (xs ! (js ! q)))
           \<and> (\<forall>j < length xs. j \<notin> set js \<longrightarrow> xs' ! j = xs ! j)"
  using assms
proof (induction js arbitrary: i xs)
  case Nil
  then show ?case by simp
next
  case (Cons j js)
  let ?x = "cap_entry m flat i (xs ! j)"
  let ?xs1 = "xs[j := ?x]"
  from Cons.prems have j: "j < length xs" "(xs ! j) ''hull_premium'' \<noteq> None" "j \<notin> set js"
    by auto
  have body: "setitem (xs ! j) ''adjusted_hull_premium''
             (if int i \<ge> m then Inr flat else getitem (xs ! j) ''hull_premium'') returns
           = (Inr (), ?x)"
    using j(2) by (auto simp add: setitem_def returns_def getitem_def cap_entry_def
        split: option.splits)
  have step: "cap_loop m flat i (j # js) xs = cap_loop m flat (Suc i) js ?xs1"
    by (simp add: body)
  have pre: "\<forall>j' \<in> set js. j' < length ?xs1 \<and> (?xs1 ! j') ''hull_premium'' \<noteq> None"
    using Cons.prems j by (auto simp add: nth_list_update)
  from Cons.IH[of ?xs1 "Suc i", OF _ pre] Cons.prems(1) obtain xs'
    where xs': "cap_loop m flat (Suc i) js ?xs1 = (Inr (), xs')" "length xs' = length ?xs1"
      "\<forall>q < length js. xs' ! (js ! q) = cap_entry m flat (Suc i + q) (?xs1 ! (js ! q))"
      "\<forall>j' < length ?xs1. j' \<notin> set js \<longrightarrow> xs' ! j' = ?xs1 ! j'"
    by auto
  have at_j: "xs' ! j = ?x" using xs'(4) j by simp
  have "\<forall>q < length (j # js). xs' ! ((j # js) ! q) = cap_entry m flat (i + q) (xs ! ((j # js) ! q))"
  proof (intro allI impI)
    fix q assume q: "q < length (j # js)"
    show "xs' ! ((j # js) ! q) = cap_entry m flat (i + q) (xs ! ((j # js) ! q))"
    proof (cases q)
      case 0
      then show ?thesis using at_j by simp
    next
      case (Suc q')
      with q have q': "q' < length js" by simp
      then have "js ! q' \<noteq> j" using j(3) by (metis nth_mem)
      then show ?thesis using xs'(3) q' Suc by (simp add: nth_list_update)
    qed
  qed
  moreover have "\<forall>j' < length xs. j' \<notin> set (j # js) \<longrightarrow> xs' ! j' = xs ! j'"
    using xs'(4) by (auto simp add: nth_list_update)
  ultimately show ?case using step xs'(1,2) by simp
qed

lemma for_each_map:
  assumes "\<forall>x \<in> set xs. body x = (Inr (), f x)"
  shows "for_each body xs = (Inr (), map f xs)"
  using assms by (induction xs) simp_all

subsection \<open>The two capping rules\<close>

lemma applying_extensions_after_drones:
  assumes "sorted_reverse ''hull_premium'' (drones data) = Inr os"
    and "cap_loop (max_drones_in_air data) (PInt 150) 0 os (drones data) = (Inr (), ds')"
  shows "applying_extensions data =
     (if length (detachable_cameras data) > length ds' then
        (case sorted_reverse ''value'' (detachable_cameras data) of
           Inl e \<Rightarrow> (Inl e, data\<lparr>drones := ds'\<rparr>)
         | Inr sorted_cameras \<Rightarrow>
            (case cap_loop (max_drones_in_air data) (PInt 50) 0 sorted_cameras
                    (detachable_cameras data) of
               (out, cs) \<Rightarrow> (out, data\<lparr>drones := ds', detachable_cameras := cs\<rparr>)))
      else
        (case for_each uncapped_body (detachable_cameras data) of
           (out, cs) \<Rightarrow> (out, data\<lparr>drones := ds', detachable_cameras := cs\<rparr>)))"
  using assms by (simp add: applying_extensions_def Let_def split: sum.splits)

lemma applying_extensions_drones:
  assumes "list_all (numeric_field ''hull_premium'') (drones data)"
  shows "\<exists>os ds'. sorted_reverse ''hull_premium'' (drones data) = Inr os
      \<and> stable_desc (\<lambda>i. num_at ''hull_premium'' (drones data ! i)) (length (drones data)) os
      \<and> cap_loop (max_drones_in_air data) (PInt 150) 0 os (drones data) = (Inr (), ds')
      \<and> length ds' = length (drones data)
      \<and> (\<forall>p < length (drones data). ds' ! (os ! p) =
            cap_entry (max_drones_in_air data) (PInt 150) p (drones data ! (os ! p)))
      \<and> drones (snd (applying_extensions data)) = ds'"
proof -
  let ?xs = "drones data"
  from sorted_reverse_priced[OF assms] obtain os
    where os: "sorted_reverse ''hull_premium'' ?xs = Inr os"
      "stable_desc (\<lambda>i. num_at ''hull_premium'' (?xs ! i)) (length ?xs) os" by blast
  from os(2) have d: "distinct os" and s: "set os = set [0..<length ?xs]"
    by (simp_all add: stable_desc_def)
  have len: "length os = length ?xs"
    using d s by (metis distinct_card card_atLeastLessThan set_upt diff_zero)
  have pre: "\<forall>j \<in> set os. j < length ?xs \<and> (?xs ! j) ''hull_premium'' \<noteq> None"
  proof
    fix j assume "j \<in> set os"
    with s have j: "j < length ?xs" by simp
    with assms have "numeric_field ''hull_premium'' (?xs ! j)" by (simp add: list_all_length)
    with j show "j < length ?xs \<and> (?xs ! j) ''hull_premium'' \<noteq> None"
      by (simp add: numeric_field_entry)
  qed
  from cap_loop_ok[OF d pre, of "max_drones_in_air data" "PInt 150" 0] obtain ds'
    where ds': "cap_loop (max_drones_in_air data) (PInt 150) 0 os ?xs = (Inr (), ds')"
      "length ds' = length ?xs"
      "\<forall>q < length os. ds' ! (os ! q) =
          cap_entry (max_drones_in_air data) (PInt 150) (0 + q) (?xs ! (os ! q))"
    by blast
  have "drones (snd (applying_extensions data)) = ds'"
    unfolding applying_extensions_after_drones[OF os(1) ds'(1)]
    by (simp split: sum.splits prod.splits)
  with os ds' len show ?thesis by auto
qed

lemma uncapped_body_ok:
  "cam ''hull_premium'' \<noteq> None \<Longrightarrow> uncapped_body cam = (Inr (), uncapped cam)"
  by (auto simp add: uncapped_body_def setitem_def returns_def getitem_def uncapped_def
      split: option.splits)

lemma applying_extensions_cameras:
  assumes dr: "list_all (numeric_field ''hull_premium'') (drones data)"
    and cv: "list_all (numeric_field ''value'') (detachable_cameras data)"
    and cp: "list_all (numeric_field ''hull_premium'') (detachable_cameras data)"
  shows "fst (applying_extensions data) = Inr ()
     \<and> length (detachable_cameras (snd (applying_extensions data))) = length (detachable_cameras data)
     \<and> (length (detachable_cameras data) \<le> length (drones data) \<longrightarrow>
          detachable_cameras (snd (applying_extensions data)) = map uncapped (detachable_cameras data))
     \<and> (length (detachable_cameras data) > length (drones data) \<longrightarrow>
          (\<exists>os. sorted_reverse ''value'' (detachable_cameras data) = Inr os
             \<and> stable_desc (\<lambda>i. num_at ''value'' (detachable_cameras data ! i))
                  (length (detachable_cameras data)) os
             \<and> (\<forall>p < length (detachable_cameras data).
                   detachable_cameras (snd (applying_extensions data)) ! (os ! p) =
                   cap_entry (max_drones_in_air data) (PInt 50) p
                     (detachable_cameras data ! (os ! p)))))"
proof -
  let ?cs = "detachable_cameras data"
  from applying_extensions_drones[OF dr] obtain os ds'
    where a: "sorted_reverse ''hull_premium'' (drones data) = Inr os"
      "cap_loop (max_drones_in_air data) (PInt 150) 0 os (drones data) = (Inr (), ds')"
      "length ds' = length (drones data)" by blast
  note u = applying_extensions_after_drones[OF a(1,2)]
  have hp: "\<forall>c \<in> set ?cs. c ''hull_premium'' \<noteq> None"
    using cp by (auto simp add: list_all_iff numeric_field_entry)
  show ?thesis
  proof (cases "length ?cs > length (drones data)")
    case False
    have "for_each uncapped_body ?cs = (Inr (), map uncapped ?cs)"
      using hp by (intro for_each_map) (simp add: uncapped_body_ok)
    with False a(3) show ?thesis unfolding u by simp
  next
    case True
    from sorted_reverse_priced[OF cv] obtain cos
      where cos: "sorted_reverse ''value'' ?cs = Inr cos"
        "stable_desc (\<lambda>i. num_at ''value'' (?cs ! i)) (length ?cs) cos" by blast
    from cos(2) have d: "distinct cos" and s: "set cos = set [0..<length ?cs]"
      by (simp_all add: stable_desc_def)
    have len: "length cos = length ?cs"
      using d s by (metis distinct_card card_atLeastLessThan set_upt diff_zero)
    have pre: "\<forall>j \<in> set cos. j < length ?cs \<and> (?cs ! j) ''hull_premium'' \<noteq> None"
      using s hp by auto
    from cap_loop_ok[OF d pre, of "max_drones_in_air data" "PInt 50" 0] obtain cs'
      where cs': "cap_loop (max_drones_in_air data) (PInt 50) 0 cos ?cs = (Inr (), cs')"
        "length cs' = length ?cs"
        "\<forall>q < length cos. cs' ! (cos ! q) =
            cap_entry (max_drones_in_air data) (PInt 50) (0 + q) (?cs ! (cos ! q))"
      by blast
    have r: "applying_extensions data = (Inr (), data\<lparr>drones := ds', detachable_cameras := cs'\<rparr>)"
      unfolding u using True a(3) cos(1) cs'(1) by simp
    show ?thesis
      unfolding r using True cos cs'(2,3) len by auto
  qed
qed

lemma camera_body_priced:
  assumes "\<bar>v\<bar> < float_limit_int"
  shows "camera_body (PFloat r) (example_camera serial v) = (Inr (), priced_camera serial v r)"
proof -
  have "as_float (PInt v) = Some (Inr (of_int v))" using assms by (simp add: to_float_def)
  then show ?thesis
    by (simp add: camera_body_def setitem_def returns_def getitem_def bnd_simps example_camera_def
        priced_camera_def py_mul_float_right)
qed

lemma example_cameras_priced:
  "calculate_camera_premium example_cameras (PFloat r) =
     (Inr (), [priced_camera ''ZZZ-999'' 5000 r, priced_camera ''YYY-888'' 2500 r,
               priced_camera ''XXX-777'' 1500 r, priced_camera ''WWW-666'' 2000 r])"
  by (simp add: calculate_camera_premium_def example_cameras_def camera_body_priced
      float_limit_int_def)

lemma priced_camera_entries:
  "priced_camera serial v r ''value'' = Some (PInt v)"
  "priced_camera serial v r ''hull_premium'' = Some (PFloat (of_int v * r))"
  by (simp_all add: priced_camera_def example_camera_def)

lemma upt_4: "[0..<4] = [0, 1, 2, 3]"
  by code_simp

lemma example_cameras_sorted:
  "sorted_reverse ''value'' [priced_camera ''ZZZ-999'' 5000 r, priced_camera ''YYY-888'' 2500 r,
               priced_camera ''XXX-777'' 1500 r, priced_camera ''WWW-666'' 2000 r]
   = Inr [0, 1, 3, 2]"
  by (simp add: sorted_reverse_def getitem_def priced_camera_entries comparable_def upt_4
      key_lt_def py_lt_def)

lemma list4:
  assumes "length xs = 4"
  shows "xs = [xs ! 0, xs ! 1, xs ! 2, xs ! 3]"
  using assms by (auto simp add: list_eq_iff_nth_eq nth_Cons' upt_4 less_Suc_eq numeral_eq_Suc)

lemma cap_entry_adjusted:
  "cap_entry m flat p d ''adjusted_hull_premium'' = (if int p < m then d ''hull_premium'' else Some flat)"
  by (simp add: cap_entry_def)

lemma list3:
  assumes "length xs = 3"
  shows "xs = [xs ! 0, xs ! 1, xs ! 2]"
  using assms by (auto simp add: list_eq_iff_nth_eq nth_Cons' less_Suc_eq numeral_eq_Suc)

text \<open>
  C5: for drones priced on \<^verbatim>\<open>hull_premium\<close>, the adjuster sorts them by hull premium in
  descending order, equal premiums in input order; the drone at place \<open>p\<close> of that order
  keeps its hull premium as adjusted premium when \<open>p < max_drones_in_air\<close> and gets 150
  otherwise, and no other entry of any drone changes. With a cap of 2 and premiums 600,
  720 and 800 the adjusted premiums are 150, 720 and 800, as the instance after the
  theorem shows.
\<close>

theorem drone_cap:
  assumes "list_all (numeric_field ''hull_premium'') (drones data)"
  shows "\<exists>os. sorted_reverse ''hull_premium'' (drones data) = Inr os
      \<and> stable_desc (\<lambda>i. num_at ''hull_premium'' (drones data ! i)) (length (drones data)) os
      \<and> length (drones (snd (applying_extensions data))) = length (drones data)
      \<and> (\<forall>p < length (drones data).
            drones (snd (applying_extensions data)) ! (os ! p) =
            cap_entry (max_drones_in_air data) (PInt 150) p (drones data ! (os ! p)))"
  using applying_extensions_drones[OF assms] by blast

theorem drone_cap_witness:
  "adjusted (drones (snd (applying_extensions
     (sample_batch (3 / 10) 2 [priced_drone 600, priced_drone 720, priced_drone 800] [])))) =
   [Some (PInt 150), Some (PFloat 720), Some (PFloat 800)]"
proof -
  let ?b = "sample_batch (3 / 10) 2 [priced_drone 600, priced_drone 720, priced_drone 800] []"
  let ?ds = "drones (snd (applying_extensions ?b))"
  have b: "drones ?b = [priced_drone 600, priced_drone 720, priced_drone 800]"
    "max_drones_in_air ?b = 2"
    by (simp_all add: sample_batch_def)
  have priced: "list_all (numeric_field ''hull_premium'') (drones ?b)"
    by (simp add: sample_batch_def numeric_field_def priced_drone_def)
  have sr: "sorted_reverse ''hull_premium'' (drones ?b) = Inr [2, 1, 0]"
    unfolding b by code_simp
  from drone_cap[OF priced] sr have len: "length ?ds = 3"
    and at: "\<forall>p < 3. ?ds ! ([2, 1, 0] ! p) = cap_entry 2 (PInt 150) p (drones ?b ! ([2, 1, 0] ! p))"
    by (auto simp add: b)
  from at[rule_format, of 0] at[rule_format, of 1] at[rule_format, of 2]
  have "?ds ! 2 = cap_entry 2 (PInt 150) 0 (priced_drone 800)"
    "?ds ! 1 = cap_entry 2 (PInt 150) 1 (priced_drone 720)"
    "?ds ! 0 = cap_entry 2 (PInt 150) 2 (priced_drone 600)"
    by (simp_all add: b)
  then have "adjusted [?ds ! 0, ?ds ! 1, ?ds ! 2] =
     [Some (PInt 150), Some (PFloat 720), Some (PFloat 800)]"
    by (simp add: adjusted_def cap_entry_adjusted priced_drone_def)
  with list3[OF len] show ?thesis by simp
qed

text \<open>
  C6: for priced drones and cameras priced on \<^verbatim>\<open>value\<close> and \<^verbatim>\<open>hull_premium\<close>, the
  adjuster returns without an error. With no more cameras than drones every camera's
  adjusted premium is its hull premium. With more cameras than drones the cameras are
  sorted by value in descending order, equal values in input order; the camera at place
  \<open>p\<close> keeps its hull premium when \<open>p < max_drones_in_air\<close> and gets 50 otherwise.
\<close>

theorem camera_cap:
  assumes "list_all (numeric_field ''hull_premium'') (drones data)"
    and "list_all (numeric_field ''value'') (detachable_cameras data)"
    and "list_all (numeric_field ''hull_premium'') (detachable_cameras data)"
  shows "fst (applying_extensions data) = Inr ()
     \<and> length (detachable_cameras (snd (applying_extensions data))) = length (detachable_cameras data)
     \<and> (length (detachable_cameras data) \<le> length (drones data) \<longrightarrow>
          detachable_cameras (snd (applying_extensions data)) = map uncapped (detachable_cameras data))
     \<and> (length (detachable_cameras data) > length (drones data) \<longrightarrow>
          (\<exists>os. sorted_reverse ''value'' (detachable_cameras data) = Inr os
             \<and> stable_desc (\<lambda>i. num_at ''value'' (detachable_cameras data ! i))
                  (length (detachable_cameras data)) os
             \<and> (\<forall>p < length (detachable_cameras data).
                   detachable_cameras (snd (applying_extensions data)) ! (os ! p) =
                   cap_entry (max_drones_in_air data) (PInt 50) p
                     (detachable_cameras data ! (os ! p)))))"
  using assms by (rule applying_extensions_cameras)

theorem camera_cap_witness:
  "fst (applying_extensions (sample_batch (3 / 10) 2
       [priced_drone 600, priced_drone 720, priced_drone 800]
       [priced_camera ''XXX-777'' 1500 (1 / 10), priced_camera ''ZZZ-999'' 5000 (1 / 10)])) = Inr ()
   \<and> adjusted (detachable_cameras (snd (applying_extensions (sample_batch (3 / 10) 2
       [priced_drone 600, priced_drone 720, priced_drone 800]
       [priced_camera ''XXX-777'' 1500 (1 / 10), priced_camera ''ZZZ-999'' 5000 (1 / 10)])))) =
     [Some (PFloat 150), Some (PFloat 500)]"
proof -
  let ?cs = "[priced_camera ''XXX-777'' 1500 (1 / 10), priced_camera ''ZZZ-999'' 5000 (1 / 10)]"
  let ?b = "sample_batch (3 / 10) 2 [priced_drone 600, priced_drone 720, priced_drone 800] ?cs"
  have b: "drones ?b = [priced_drone 600, priced_drone 720, priced_drone 800]"
    "detachable_cameras ?b = ?cs"
    by (simp_all add: sample_batch_def)
  have h: "list_all (numeric_field ''hull_premium'') (drones ?b)"
    "list_all (numeric_field ''value'') (detachable_cameras ?b)"
    "list_all (numeric_field ''hull_premium'') (detachable_cameras ?b)"
    by (simp_all add: sample_batch_def numeric_field_def priced_drone_def priced_camera_entries)
  from camera_cap[OF h]
  have "fst (applying_extensions ?b) = Inr ()"
    and "detachable_cameras (snd (applying_extensions ?b)) = map uncapped ?cs"
    by (simp_all add: b)
  then show ?thesis
    by (simp add: adjusted_def uncapped_def priced_camera_entries)
qed

text \<open>
  C1, as stated: of the cameras valued 5000, 2500, 1500 and 2000 the two kept at
  \<open>value \<times> r\<close> are 5000 and 2000. At \<open>r = 0.072\<close> the adjuster keeps 360 and 180 for
  the cameras valued 5000 and 2500, and gives 50 to the camera valued 2000.
\<close>

theorem camera_cap_example_counterexample:
  "adjusted (detachable_cameras (snd (applying_extensions
     (sample_batch (3 / 10) 2 [priced_drone 600, priced_drone 1152, priced_drone 1080]
        (snd (calculate_camera_premium example_cameras (PFloat (72 / 1000)))))))) =
     [Some (PFloat 360), Some (PFloat 180), Some (PInt 50), Some (PInt 50)]
   \<and> adjusted (detachable_cameras (snd (applying_extensions
     (sample_batch (3 / 10) 2 [priced_drone 600, priced_drone 1152, priced_drone 1080]
        (snd (calculate_camera_premium example_cameras (PFloat (72 / 1000)))))))) \<noteq>
     [Some (PFloat (5000 * (72 / 1000))), Some (PInt 50), Some (PInt 50),
      Some (PFloat (2000 * (72 / 1000)))]"
  by code_simp

text \<open>
  C1, amended: with three priced drones, a cap of 2 and the four cameras valued 5000,
  2500, 1500 and 2000 priced at a common rate \<open>r\<close>, the adjuster leaves the adjusted
  premium \<open>value \<times> r\<close> on the cameras valued 5000 and 2500, the top two by value, and
  sets 50 on the cameras valued 1500 and 2000.
\<close>

theorem camera_cap_example:
  assumes "length (drones data) = 3"
    and "list_all (numeric_field ''hull_premium'') (drones data)"
    and "max_drones_in_air data = 2"
    and "detachable_cameras data = snd (calculate_camera_premium example_cameras (PFloat r))"
  shows "fst (applying_extensions data) = Inr ()
     \<and> adjusted (detachable_cameras (snd (applying_extensions data))) =
         [Some (PFloat (5000 * r)), Some (PFloat (2500 * r)), Some (PInt 50), Some (PInt 50)]"
proof -
  let ?cs = "[priced_camera ''ZZZ-999'' 5000 r, priced_camera ''YYY-888'' 2500 r,
               priced_camera ''XXX-777'' 1500 r, priced_camera ''WWW-666'' 2000 r]"
  let ?cs' = "detachable_cameras (snd (applying_extensions data))"
  have cs: "detachable_cameras data = ?cs"
    using assms(4) by (simp add: example_cameras_priced)
  have cv: "list_all (numeric_field ''value'') (detachable_cameras data)"
    and cp: "list_all (numeric_field ''hull_premium'') (detachable_cameras data)"
    by (simp_all add: cs numeric_field_def priced_camera_entries)
  from applying_extensions_cameras[OF assms(2) cv cp] assms(1,3) example_cameras_sorted[of r]
  have ok: "fst (applying_extensions data) = Inr ()" and len: "length ?cs' = 4"
    and at: "\<forall>p < 4. ?cs' ! ([0, 1, 3, 2] ! p) = cap_entry 2 (PInt 50) p (?cs ! ([0, 1, 3, 2] ! p))"
    by (auto simp add: cs)
  from at[rule_format, of 0] at[rule_format, of 1] at[rule_format, of 2] at[rule_format, of 3]
  have "?cs' ! 0 = cap_entry 2 (PInt 50) 0 (priced_camera ''ZZZ-999'' 5000 r)"
    "?cs' ! 1 = cap_entry 2 (PInt 50) 1 (priced_camera ''YYY-888'' 2500 r)"
    "?cs' ! 3 = cap_entry 2 (PInt 50) 2 (priced_camera ''WWW-666'' 2000 r)"
    "?cs' ! 2 = cap_entry 2 (PInt 50) 3 (priced_camera ''XXX-777'' 1500 r)"
    by simp_all
  then have "adjusted [?cs' ! 0, ?cs' ! 1, ?cs' ! 2, ?cs' ! 3] =
     [Some (PFloat (5000 * r)), Some (PFloat (2500 * r)), Some (PInt 50), Some (PInt 50)]"
    by (simp add: adjusted_def cap_entry_adjusted priced_camera_entries)
  with list4[OF len] ok show ?thesis by simp
qed

theorem camera_cap_example_witness:
  "fst (applying_extensions
     (sample_batch (3 / 10) 2 [priced_drone 600, priced_drone 1152, priced_drone 1080]
        (snd (calculate_camera_premium example_cameras (PFloat (1 / 10)))))) = Inr ()
   \<and> adjusted (detachable_cameras (snd (applying_extensions
     (sample_batch (3 / 10) 2 [priced_drone 600, priced_drone 1152, priced_drone 1080]
        (snd (calculate_camera_premium example_cameras (PFloat (1 / 10)))))))) =
     [Some (PFloat 500), Some (PFloat 250), Some (PInt 50), Some (PInt 50)]"
proof -
  let ?b = "sample_batch (3 / 10) 2 [priced_drone 600, priced_drone 1152, priced_drone 1080]
        (snd (calculate_camera_premium example_cameras (PFloat (1 / 10))))"
  have "length (drones ?b) = 3" "list_all (numeric_field ''hull_premium'') (drones ?b)"
    "max_drones_in_air ?b = 2"
    "detachable_cameras ?b = snd (calculate_camera_premium example_cameras (PFloat (1 / 10)))"
    by (simp_all add: sample_batch_def numeric_field_def priced_drone_def)
  from camera_cap_example[OF this] show ?thesis by simp
qed

section \<open>The camera rate\<close>

lemma py_gt_numeric:
  assumes "real_of_py a \<noteq> None" "real_of_py b \<noteq> None"
  shows "py_gt a b = Inr (rk b < rk a)"
  using assms by (cases a; cases b) (simp_all add: py_gt_def py_lt_def rk_def)

lemma max_rate_loop_unflagged:
  assumes "\<forall>d \<in> set ds. d ''has_detachable_camera'' \<noteq> None \<and> \<not> flagged d"
  shows "max_rate_loop cur ds = Inr cur"
  using assms
  by (induction ds arbitrary: cur) (auto simp add: getitem_def flagged_def split: option.splits)

lemma max_rate_loop_step_flagged:
  assumes "flagged d" and "d ''hull_final_rate'' = Some r" and "real_of_py r \<noteq> None"
    and "cur = PNone \<or> real_of_py cur \<noteq> None"
  shows "max_rate_loop cur (d # ds) =
           max_rate_loop (if cur = PNone \<or> rk cur < rk r then r else cur) ds"
proof -
  from assms(1) obtain f where f: "d ''has_detachable_camera'' = Some f" "eq_True f"
    by (auto simp add: flagged_def split: option.splits)
  show ?thesis
  proof (cases "cur = PNone")
    case True
    then show ?thesis using f assms(2) by (simp add: getitem_def)
  next
    case False
    with assms(4) have "real_of_py cur \<noteq> None" by simp
    from py_gt_numeric[OF assms(3) this] False f assms(2) show ?thesis
      by (simp add: getitem_def bnd_simps)
  qed
qed

lemma max_rate_loop_step_unflagged:
  assumes "d ''has_detachable_camera'' \<noteq> None" and "\<not> flagged d"
  shows "max_rate_loop cur (d # ds) = max_rate_loop cur ds"
  using assms by (auto simp add: getitem_def flagged_def split: option.splits)

lemma max_rate_loop_max:
  assumes "\<forall>d \<in> set ds. d ''has_detachable_camera'' \<noteq> None"
    and "\<forall>d \<in> set ds. flagged d \<longrightarrow> numeric_field ''hull_final_rate'' d"
    and "cur = PNone \<or> real_of_py cur \<noteq> None"
  shows "\<exists>m. max_rate_loop cur ds = Inr m
           \<and> (m = cur \<or> (\<exists>d \<in> set ds. flagged d \<and> d ''hull_final_rate'' = Some m))
           \<and> (m = PNone \<or> real_of_py m \<noteq> None)
           \<and> (cur \<noteq> PNone \<longrightarrow> m \<noteq> PNone \<and> rk cur \<le> rk m)
           \<and> (\<forall>d \<in> set ds. flagged d \<longrightarrow> m \<noteq> PNone \<and> num_at ''hull_final_rate'' d \<le> rk m)"
  using assms
proof (induction ds arbitrary: cur)
  case Nil
  then show ?case by auto
next
  case (Cons d ds)
  show ?case
  proof (cases "flagged d")
    case False
    with Cons.prems(1) have s: "max_rate_loop cur (d # ds) = max_rate_loop cur ds"
      by (intro max_rate_loop_step_unflagged) simp_all
    from Cons.IH[of cur] Cons.prems obtain m where m: "max_rate_loop cur ds = Inr m"
      "m = cur \<or> (\<exists>d \<in> set ds. flagged d \<and> d ''hull_final_rate'' = Some m)"
      "m = PNone \<or> real_of_py m \<noteq> None"
      "cur \<noteq> PNone \<longrightarrow> m \<noteq> PNone \<and> rk cur \<le> rk m"
      "\<forall>d \<in> set ds. flagged d \<longrightarrow> m \<noteq> PNone \<and> num_at ''hull_final_rate'' d \<le> rk m"
      by auto
    with s False show ?thesis by auto
  next
    case True
    with Cons.prems(2) have nf: "numeric_field ''hull_final_rate'' d" by simp
    then obtain r where r: "d ''hull_final_rate'' = Some r" "real_of_py r \<noteq> None"
      "num_at ''hull_final_rate'' d = rk r"
      by (auto simp add: numeric_field_def num_at_def rk_def split: option.splits)
    let ?c = "if cur = PNone \<or> rk cur < rk r then r else cur"
    have s: "max_rate_loop cur (d # ds) = max_rate_loop ?c ds"
      using True r(1,2) Cons.prems(3) by (rule max_rate_loop_step_flagged)
    have c: "?c \<noteq> PNone" "real_of_py ?c \<noteq> None" "rk r \<le> rk ?c"
      "cur \<noteq> PNone \<longrightarrow> rk cur \<le> rk ?c"
      using r(2) Cons.prems(3) by auto
    from Cons.IH[of ?c] Cons.prems(1,2) c(2) obtain m where m: "max_rate_loop ?c ds = Inr m"
      "m = ?c \<or> (\<exists>d \<in> set ds. flagged d \<and> d ''hull_final_rate'' = Some m)"
      "m = PNone \<or> real_of_py m \<noteq> None"
      "?c \<noteq> PNone \<longrightarrow> m \<noteq> PNone \<and> rk ?c \<le> rk m"
      "\<forall>d \<in> set ds. flagged d \<longrightarrow> m \<noteq> PNone \<and> num_at ''hull_final_rate'' d \<le> rk m"
      by auto
    from m(4) c have m': "m \<noteq> PNone" "rk r \<le> rk m" "cur \<noteq> PNone \<longrightarrow> rk cur \<le> rk m"
      by auto
    have "m = cur \<or> (\<exists>d' \<in> set (d # ds). flagged d' \<and> d' ''hull_final_rate'' = Some m)"
      using m(2) True r(1) by (auto split: if_splits)
    moreover have "\<forall>d' \<in> set (d # ds). flagged d' \<longrightarrow> m \<noteq> PNone \<and> num_at ''hull_final_rate'' d' \<le> rk m"
      using m(5) m' r(3) by auto
    ultimately show ?thesis using s m(1,3) m' by auto
  qed
qed

lemma py_mul_None: "py_mul v PNone = Inl TypeError"
  by (cases v) (simp_all add: py_mul_def arith_def split: sum.splits)

lemma camera_body_no_rate:
  assumes "c ''value'' = Some v"
  shows "camera_body PNone c = (Inl TypeError, c(''hull_rate'' \<mapsto> PNone))"
  using assms
  by (simp add: camera_body_def setitem_def getitem_def bnd_simps py_mul_None)

text \<open>
  C3, as stated: with no flagged drone the lookup raises an explicit "no applicable rate"
  error and camera pricing does not go on. \<^verbatim>\<open>get_max_hull_rate\<close> returns \<^verbatim>\<open>None\<close>
  and raises nothing; camera pricing is then run with \<^verbatim>\<open>None\<close> as the rate: it
  returns normally on no camera, and on a camera it stores \<^verbatim>\<open>None\<close> as the hull rate and
  raises TypeError at the multiplication. The first version's \<^verbatim>\<open>max\<close> raises ValueError
  on the empty sequence.
\<close>

theorem no_applicable_rate_counterexample:
  "get_max_hull_rate [rated_drone False (96 / 1000)] = Inr PNone
   \<and> fst (calculate_camera_premium [] PNone) = Inr ()
   \<and> fst (calculate_camera_premium [example_camera ''ZZZ-999'' 5000] PNone) = Inl TypeError
   \<and> map (\<lambda>c. c ''hull_rate'')
        (snd (calculate_camera_premium [example_camera ''ZZZ-999'' 5000] PNone)) = [Some PNone]
   \<and> builtin_max_rate None [rated_drone False (96 / 1000)] = Inl ValueError"
  by code_simp

text \<open>
  C3, amended: for drones that all carry the flag entry, with numeric final rates on
  the flagged ones: when no drone is flagged \<^verbatim>\<open>get_max_hull_rate\<close> returns \<^verbatim>\<open>None\<close>
  without raising, and when some drone is flagged it returns the final rate of a
  flagged drone that no flagged drone's rate exceeds. Camera pricing at the rate
  \<^verbatim>\<open>None\<close> returns normally on no camera and otherwise raises TypeError at the first
  camera, having set its hull rate to \<^verbatim>\<open>None\<close>.
\<close>

theorem max_hull_rate:
  assumes "\<forall>d \<in> set ds. d ''has_detachable_camera'' \<noteq> None"
    and "\<forall>d \<in> set ds. flagged d \<longrightarrow> numeric_field ''hull_final_rate'' d"
  shows "(\<not> (\<exists>d \<in> set ds. flagged d) \<longrightarrow> get_max_hull_rate ds = Inr PNone)
     \<and> ((\<exists>d \<in> set ds. flagged d) \<longrightarrow>
          (\<exists>m. get_max_hull_rate ds = Inr m
             \<and> (\<exists>d \<in> set ds. flagged d \<and> d ''hull_final_rate'' = Some m)
             \<and> (\<forall>d \<in> set ds. flagged d \<longrightarrow> num_at ''hull_final_rate'' d \<le> rk m)))
     \<and> calculate_camera_premium [] PNone = (Inr (), [])
     \<and> (\<forall>c cs v. c ''value'' = Some v \<longrightarrow>
          calculate_camera_premium (c # cs) PNone = (Inl TypeError, c(''hull_rate'' \<mapsto> PNone) # cs))"
proof -
  have a: "\<not> (\<exists>d \<in> set ds. flagged d) \<longrightarrow> get_max_hull_rate ds = Inr PNone"
    using assms(1) by (auto simp add: get_max_hull_rate_def intro: max_rate_loop_unflagged)
  have b: "(\<exists>d \<in> set ds. flagged d) \<longrightarrow>
          (\<exists>m. get_max_hull_rate ds = Inr m
             \<and> (\<exists>d \<in> set ds. flagged d \<and> d ''hull_final_rate'' = Some m)
             \<and> (\<forall>d \<in> set ds. flagged d \<longrightarrow> num_at ''hull_final_rate'' d \<le> rk m))"
  proof
    assume f: "\<exists>d \<in> set ds. flagged d"
    from max_rate_loop_max[OF assms, of PNone] obtain m
      where m: "max_rate_loop PNone ds = Inr m"
        "m = PNone \<or> (\<exists>d \<in> set ds. flagged d \<and> d ''hull_final_rate'' = Some m)"
        "\<forall>d \<in> set ds. flagged d \<longrightarrow> m \<noteq> PNone \<and> num_at ''hull_final_rate'' d \<le> rk m"
      by auto
    from f m(3) have "m \<noteq> PNone" by auto
    with m show "\<exists>m. get_max_hull_rate ds = Inr m
             \<and> (\<exists>d \<in> set ds. flagged d \<and> d ''hull_final_rate'' = Some m)
             \<and> (\<forall>d \<in> set ds. flagged d \<longrightarrow> num_at ''hull_final_rate'' d \<le> rk m)"
      by (auto simp add: get_max_hull_rate_def)
  qed
  have c: "calculate_camera_premium [] PNone = (Inr (), [])"
    by (simp add: calculate_camera_premium_def)
  have d: "\<forall>c cs v. c ''value'' = Some v \<longrightarrow>
          calculate_camera_premium (c # cs) PNone = (Inl TypeError, c(''hull_rate'' \<mapsto> PNone) # cs)"
    by (simp add: calculate_camera_premium_def camera_body_no_rate)
  from a b c d show ?thesis by blast
qed

theorem max_hull_rate_witness:
  "get_max_hull_rate [rated_drone True (6 / 100), rated_drone False (96 / 1000),
       rated_drone True (72 / 1000)] = Inr (PFloat (72 / 1000))
   \<and> get_max_hull_rate [rated_drone False (96 / 1000)] = Inr PNone"
proof -
  let ?ds = "[rated_drone True (6 / 100), rated_drone False (96 / 1000),
       rated_drone True (72 / 1000)]"
  have fl: "flagged (rated_drone True r)" "\<not> flagged (rated_drone False r)" for r
    by (simp_all add: flagged_def rated_drone_def eq_True_def)
  have e: "rated_drone f r ''has_detachable_camera'' = Some (PBool f)"
    "rated_drone f r ''hull_final_rate'' = Some (PFloat r)"
    "numeric_field ''hull_final_rate'' (rated_drone f r)"
    "num_at ''hull_final_rate'' (rated_drone f r) = r" for f r
    by (simp_all add: rated_drone_def numeric_field_def num_at_def)
  have h1: "\<forall>d \<in> set ?ds. d ''has_detachable_camera'' \<noteq> None"
    and h2: "\<forall>d \<in> set ?ds. flagged d \<longrightarrow> numeric_field ''hull_final_rate'' d"
    by (simp_all add: e)
  from max_hull_rate[OF h1 h2] fl obtain m where m: "get_max_hull_rate ?ds = Inr m"
    "\<exists>d \<in> set ?ds. flagged d \<and> d ''hull_final_rate'' = Some m"
    "\<forall>d \<in> set ?ds. flagged d \<longrightarrow> num_at ''hull_final_rate'' d \<le> rk m"
    by auto
  from m(2) fl have "m = PFloat (6 / 100) \<or> m = PFloat (72 / 1000)"
    by (auto simp add: e)
  moreover from m(3) fl have "72 / 1000 \<le> rk m" by (simp add: e)
  ultimately have "m = PFloat (72 / 1000)" by (auto simp add: rk_def)
  moreover have "get_max_hull_rate [rated_drone False (96 / 1000)] = Inr PNone"
    using max_hull_rate[of "[rated_drone False (96 / 1000)]"] fl by (simp add: e)
  ultimately show ?thesis using m(1) by simp
qed

section \<open>The aggregator\<close>

lemma fits_float_as_complex:
  assumes "complex_of_py n = Some c"
  shows "fits_float n \<Longrightarrow> as_complex n = Some (Inr c)"
    and "\<not> fits_float n \<Longrightarrow> as_float n = Some (Inl OverflowError)"
  using assms by (cases n; auto simp add: fits_float_def to_float_def)+

lemma float_or_complex_fits: "float_or_complex v \<Longrightarrow> fits_float v"
  by (cases v) (simp_all add: float_or_complex_def fits_float_def)

lemma py_add_numbers:
  assumes "complex_of_py a = Some x" "complex_of_py b = Some y"
    and "float_or_complex a" "float_or_complex b"
  shows "\<exists>s. py_add a b = Inr s \<and> complex_of_py s = Some (x + y) \<and> float_or_complex s"
  using assms
  by (cases a; cases b) (auto simp add: py_add_def arith_def bnd_simps float_or_complex_def)

lemma py_add_result:
  assumes "complex_of_py a = Some x" "py_add a v = Inr s"
  shows "\<exists>y. complex_of_py v = Some y \<and> complex_of_py s = Some (x + y)"
  using assms
  by (cases a; cases v)
    (auto simp add: py_add_def arith_def bnd_simps to_float_def split: if_splits)

lemma py_truediv_number:
  assumes "complex_of_py n = Some c" "fits_float n"
  shows "py_truediv n (PFloat 0) = Inl ZeroDivisionError"
    and "m \<noteq> 0 \<Longrightarrow> \<exists>g. py_truediv n (PFloat m) = Inr g
           \<and> complex_of_py g = Some (c / of_real m) \<and> float_or_complex g"
  using assms
  by (cases n; auto simp add: py_truediv_def arith_def bnd_simps fits_float_def to_float_def
      float_or_complex_def)+

lemma py_truediv_overflow:
  assumes "complex_of_py n = Some c" "\<not> fits_float n"
  shows "py_truediv n (PFloat m) = Inl OverflowError"
  using assms
  by (cases n) (auto simp add: py_truediv_def arith_def bnd_simps fits_float_def to_float_def)

lemma one_minus_brokerage: "py_sub (PInt 1) (PFloat b) = Inr (PFloat (1 - b))"
  by (simp add: py_sub_def arith_def bnd_simps to_float_def float_limit_int_def)

lemma gross_line_overflow:
  assumes "net_prem data k = Some n" "complex_of_py n = Some c" "\<not> fits_float n"
  shows "gross_line data k = Inl OverflowError"
  using assms(1) py_truediv_overflow[OF assms(2,3)]
  by (simp add: gross_line_def getitem_def bnd_simps one_minus_brokerage)

lemma gross_line_number:
  assumes "net_prem data k = Some n" "complex_of_py n = Some c" "fits_float n"
  shows "brokerage data = 1 \<Longrightarrow> gross_line data k = Inl ZeroDivisionError"
    and "brokerage data \<noteq> 1 \<Longrightarrow>
           \<exists>g. gross_line data k = Inr g
             \<and> complex_of_py g = Some (c / of_real (1 - brokerage data)) \<and> float_or_complex g"
proof -
  have g: "gross_line data k = py_truediv n (PFloat (1 - brokerage data))"
    using assms(1) by (simp add: gross_line_def getitem_def bnd_simps one_minus_brokerage)
  show "brokerage data = 1 \<Longrightarrow> gross_line data k = Inl ZeroDivisionError"
    using py_truediv_number(1)[OF assms(2,3)] by (simp add: g)
  show "brokerage data \<noteq> 1 \<Longrightarrow>
           \<exists>g. gross_line data k = Inr g
             \<and> complex_of_py g = Some (c / of_real (1 - brokerage data)) \<and> float_or_complex g"
    using py_truediv_number(2)[OF assms(2,3), of "1 - brokerage data"] by (simp add: g)
qed

lemma gross_line_gross_update [simp]:
  "gross_line (data\<lparr>gross_prem := g\<rparr>) k = gross_line data k"
  by (simp add: gross_line_def)

lemma sum_loop_result:
  assumes "sum_loop acc k xs = Inr s" "complex_of_py acc = Some a"
  shows "list_all (is_number k) xs \<and> complex_of_py s = Some (a + (\<Sum>d\<leftarrow>xs. amount k d))"
  using assms
proof (induction xs arbitrary: acc a)
  case Nil
  then show ?case by simp
next
  case (Cons d ds)
  from Cons.prems(1) obtain v acc' where v: "d k = Some v" "py_add acc v = Inr acc'"
    "sum_loop acc' k ds = Inr s"
    by (auto simp add: getitem_def split: option.splits sum.splits)
  from py_add_result[OF Cons.prems(2) v(2)] obtain y
    where y: "complex_of_py v = Some y" "complex_of_py acc' = Some (a + y)" by blast
  from Cons.IH[OF v(3) y(2)] have "list_all (is_number k) ds"
    "complex_of_py s = Some (a + y + (\<Sum>d\<leftarrow>ds. amount k d))" by simp_all
  moreover have "is_number k d" "amount k d = y"
    using v(1) y(1) by (simp_all add: is_number_def amount_def)
  ultimately show ?case by (simp add: add.assoc)
qed

lemma py_sum_result:
  assumes "py_sum k xs = Inr s"
  shows "list_all (is_number k) xs \<and> complex_of_py s = Some (\<Sum>d\<leftarrow>xs. amount k d)"
  using sum_loop_result[of "PInt 0" k xs s 0] assms by (simp add: py_sum_def)

lemma gross_premiums_zero_division:
  assumes "net_prem data ''drones_hull'' = Some n1" "complex_of_py n1 = Some c1"
    and "fits_float n1" "brokerage data = 1"
  shows "gross_premiums data = (Inl ZeroDivisionError, data)"
  using gross_line_number(1)[OF assms(1,2,3,4)]
  by (simp add: gross_premiums_def set_gross_def)

lemma gross_premiums_overflow:
  assumes "net_prem data ''drones_hull'' = Some n1" "complex_of_py n1 = Some c1"
    and "\<not> fits_float n1"
  shows "gross_premiums data = (Inl OverflowError, data)"
  using gross_line_overflow[OF assms]
  by (simp add: gross_premiums_def set_gross_def)

lemma gross_premiums_divides:
  assumes n1: "net_prem data ''drones_hull'' = Some n1" "complex_of_py n1 = Some c1"
    and n2: "net_prem data ''drones_tpl'' = Some n2" "complex_of_py n2 = Some c2"
    and n3: "net_prem data ''cameras_hull'' = Some n3" "complex_of_py n3 = Some c3"
    and f: "fits_float n1" "fits_float n2" "fits_float n3"
    and b: "brokerage data \<noteq> 1"
  shows "\<exists>g1 g2 g3 gt. gross_premiums data =
        (Inr (), data\<lparr>gross_prem := (gross_prem data)(''drones_hull'' \<mapsto> g1,
            ''drones_tpl'' \<mapsto> g2, ''cameras_hull'' \<mapsto> g3, ''total'' \<mapsto> gt)\<rparr>)
      \<and> complex_of_py g1 = Some (c1 / of_real (1 - brokerage data))
      \<and> complex_of_py g2 = Some (c2 / of_real (1 - brokerage data))
      \<and> complex_of_py g3 = Some (c3 / of_real (1 - brokerage data))
      \<and> complex_of_py gt = Some (c1 / of_real (1 - brokerage data)
            + c2 / of_real (1 - brokerage data) + c3 / of_real (1 - brokerage data))"
proof -
  from gross_line_number(2)[OF n1 f(1) b] obtain g1 where g1: "gross_line data ''drones_hull'' = Inr g1"
    "complex_of_py g1 = Some (c1 / of_real (1 - brokerage data))" "float_or_complex g1" by blast
  from gross_line_number(2)[OF n2 f(2) b] obtain g2 where g2: "gross_line data ''drones_tpl'' = Inr g2"
    "complex_of_py g2 = Some (c2 / of_real (1 - brokerage data))" "float_or_complex g2" by blast
  from gross_line_number(2)[OF n3 f(3) b] obtain g3 where g3: "gross_line data ''cameras_hull'' = Inr g3"
    "complex_of_py g3 = Some (c3 / of_real (1 - brokerage data))" "float_or_complex g3" by blast
  from py_add_numbers[OF g1(2) g2(2) g1(3) g2(3)] obtain g12 where g12: "py_add g1 g2 = Inr g12"
    "complex_of_py g12 = Some (c1 / of_real (1 - brokerage data) + c2 / of_real (1 - brokerage data))"
    "float_or_complex g12"
    by blast
  from py_add_numbers[OF g12(2) g3(2) g12(3) g3(3)] obtain gt where gt: "py_add g12 g3 = Inr gt"
    "complex_of_py gt = Some (c1 / of_real (1 - brokerage data)
            + c2 / of_real (1 - brokerage data) + c3 / of_real (1 - brokerage data))"
    by blast
  have "gross_premiums data =
        (Inr (), data\<lparr>gross_prem := (gross_prem data)(''drones_hull'' \<mapsto> g1,
            ''drones_tpl'' \<mapsto> g2, ''cameras_hull'' \<mapsto> g3, ''total'' \<mapsto> gt)\<rparr>)"
    using g1(1) g2(1) g3(1) g12(1) gt(1)
    by (simp add: gross_premiums_def set_gross_def completed_def getitem_def bnd_simps)
  with g1(2) g2(2) g3(2) gt(2) show ?thesis by blast
qed

text \<open>
  C2, as stated: the gross computation fails for every brokerage of at least 1. With a
  brokerage of 2 it returns normally: each net line is divided by \<open>1 - 2 = -1\<close>.
\<close>

theorem gross_above_one_counterexample:
  "fst (gross_premiums (netted_batch 2)) = Inr ()
   \<and> map (gross_prem (snd (gross_premiums (netted_batch 2))))
        [''drones_hull'', ''drones_tpl'', ''cameras_hull'', ''total''] =
      [Some (PFloat (- 1590)), Some (PFloat (- 300)), Some (PFloat (- 460)),
       Some (PFloat (- 2350))]"
  by code_simp

text \<open>
  C2, amended: for a batch whose three net lines are numbers that fit a float, the
  gross computation raises ZeroDivisionError, leaving the batch as it was, exactly when
  the brokerage is 1; for every other brokerage, above 1 included, it returns with each
  gross line equal to the net line divided by \<open>1 - brokerage\<close> and the gross total equal
  to the sum of the three gross lines. A first net line that is an \<^verbatim>\<open>int\<close> beyond the
  float range raises OverflowError at its division, whatever the brokerage.
\<close>

theorem gross_division:
  assumes "net_prem data ''drones_hull'' = Some n1" "complex_of_py n1 = Some c1"
    and "net_prem data ''drones_tpl'' = Some n2" "complex_of_py n2 = Some c2"
    and "net_prem data ''cameras_hull'' = Some n3" "complex_of_py n3 = Some c3"
  shows "(fits_float n1 \<and> brokerage data = 1 \<longrightarrow>
          gross_premiums data = (Inl ZeroDivisionError, data))
     \<and> (\<not> fits_float n1 \<longrightarrow> gross_premiums data = (Inl OverflowError, data))
     \<and> (fits_float n1 \<and> fits_float n2 \<and> fits_float n3 \<and> brokerage data \<noteq> 1 \<longrightarrow>
          (\<exists>g1 g2 g3 gt. gross_premiums data =
              (Inr (), data\<lparr>gross_prem := (gross_prem data)(''drones_hull'' \<mapsto> g1,
                  ''drones_tpl'' \<mapsto> g2, ''cameras_hull'' \<mapsto> g3, ''total'' \<mapsto> gt)\<rparr>)
            \<and> complex_of_py g1 = Some (c1 / of_real (1 - brokerage data))
            \<and> complex_of_py g2 = Some (c2 / of_real (1 - brokerage data))
            \<and> complex_of_py g3 = Some (c3 / of_real (1 - brokerage data))
            \<and> complex_of_py gt = Some (c1 / of_real (1 - brokerage data)
                  + c2 / of_real (1 - brokerage data) + c3 / of_real (1 - brokerage data))))"
  using gross_premiums_zero_division[OF assms(1,2)] gross_premiums_overflow[OF assms(1,2)]
    gross_premiums_divides[OF assms]
  by blast

theorem gross_division_witness:
  "fst (gross_premiums (netted_batch 1)) = Inl ZeroDivisionError
   \<and> snd (gross_premiums (netted_batch 1)) = netted_batch 1
   \<and> fst (gross_premiums (netted_batch (3 / 10))) = Inr ()"
proof -
  have n: "net_prem (netted_batch b) ''drones_hull'' = Some (PFloat 1590)"
    "complex_of_py (PFloat 1590) = Some 1590"
    "net_prem (netted_batch b) ''drones_tpl'' = Some (PFloat 300)"
    "complex_of_py (PFloat 300) = Some 300"
    "net_prem (netted_batch b) ''cameras_hull'' = Some (PFloat 460)"
    "complex_of_py (PFloat 460) = Some 460"
    and b: "brokerage (netted_batch b) = b" for b
    by (simp_all add: netted_batch_def sample_batch_def)
  from gross_division[OF n, of 1] have "gross_premiums (netted_batch 1) = (Inl ZeroDivisionError, netted_batch 1)"
    by (simp add: b fits_float_def)
  moreover from gross_division[OF n, of "3 / 10"] have "fst (gross_premiums (netted_batch (3 / 10))) = Inr ()"
    by (auto simp add: b fits_float_def)
  ultimately show ?thesis by simp
qed

section \<open>Hull and TPL pricing of a validated record\<close>

lemma calculate_hull_premium_ok:
  assumes "validate_drone drone = Inr ()"
    and v: "drone ''value'' = Some v" "as_float v = Some (Inr rv)"
    and w: "drone ''weight'' = Some (PStr w)"
    and a: "as_float (table_get weight_adj_table (PStr w)) = Some (Inr ra)"
  shows "calculate_hull_premium drone hull_base_rate weight_adj_table =
     (Inr (), drone(''hull_base_rate'' \<mapsto> PFloat hull_base_rate,
        ''hull_weight_adjustment'' \<mapsto> table_get weight_adj_table (PStr w),
        ''hull_final_rate'' \<mapsto> PFloat (hull_base_rate * ra),
        ''hull_premium'' \<mapsto> PFloat (rv * (hull_base_rate * ra))))"
  using assms
  by (simp add: calculate_hull_premium_def setitem_def returns_def getitem_def bnd_simps
      py_mul_float_left py_mul_float_right)

lemma as_float_valid:
  assumes "as_float v = Some (Inr r)"
  shows "is_int_or_float v" "0 \<le> r \<Longrightarrow> \<not> negative v"
  using assms by (cases v; auto simp add: negative_def to_float_def split: if_splits)+

lemma example_drone_valid:
  "validate_drone (example_drone s 10000 w c t_limit t_excess) = Inr ()"
  by (simp add: validate_drone_first_failed first_failed_check_def example_drone_def negative_def)

text \<open>
  C7, as stated: hull pricing has no failure path beyond validation. A record whose
  value is the \<^verbatim>\<open>int\<close> \<open>10^309\<close> passes validation; hull pricing then sets the base
  rate, the weight adjustment and the final rate, and raises OverflowError at
  \<^verbatim>\<open>value * hull_final_rate\<close>, where the \<^verbatim>\<open>int\<close> is too large to become a float.
\<close>

theorem hull_overflow_counterexample:
  "validate_drone drone_huge_value = Inr ()
   \<and> fst (calculate_hull_premium drone_huge_value (6 / 100) example_weight_adj_table) =
       Inl OverflowError
   \<and> map (snd (calculate_hull_premium drone_huge_value (6 / 100) example_weight_adj_table))
       [''hull_base_rate'', ''hull_weight_adjustment'', ''hull_final_rate'', ''hull_premium''] =
       [Some (PFloat (6 / 100)), Some (PInt 1), Some (PFloat (6 / 100)), None]"
  by code_simp

text \<open>
  C7, amended: for a record that passes validation, whose value fits a float, and a
  weight table whose entry for the record's band is a number that fits a float, the
  products being within the float range, \<^verbatim>\<open>calculate_hull_premium\<close> returns without an
  error, having set the weight adjustment to the table's entry for the record's weight
  band, or to 1 when the band is not in the table, the final rate to the base rate times
  the adjustment, and the premium to the value times the final rate. The drone of value
  10000 and weight "0 - 5kg" with base rate 0.06 gets the final rate 0.06 and the
  premium 600, as the instance after the theorem shows.
\<close>

theorem hull_pricing:
  assumes "validate_drone drone = Inr ()"
    and "drone ''value'' = Some v" and "drone ''weight'' = Some (PStr w)"
    and "adj = (case weight_adj_table w of Some a \<Rightarrow> a | None \<Rightarrow> PInt 1)"
    and "as_float v = Some (Inr rv)" and "as_float adj = Some (Inr ra)"
    and "in_float_range (hull_base_rate * ra)"
    and "in_float_range (rv * (hull_base_rate * ra))"
  shows "calculate_hull_premium drone hull_base_rate weight_adj_table =
          (Inr (), drone(''hull_base_rate'' \<mapsto> PFloat hull_base_rate,
             ''hull_weight_adjustment'' \<mapsto> adj,
             ''hull_final_rate'' \<mapsto> PFloat (hull_base_rate * ra),
             ''hull_premium'' \<mapsto> PFloat (rv * (hull_base_rate * ra))))"
proof -
  have t: "table_get weight_adj_table (PStr w) = adj"
    by (simp add: table_get_def assms(4))
  show ?thesis
    using calculate_hull_premium_ok[OF assms(1,2,5,3), of weight_adj_table ra hull_base_rate]
      assms(6)
    unfolding t by simp
qed

theorem hull_pricing_witness:
  "validate_drone (example_drone ''AAA-111'' 10000 ''0 - 5kg'' True 1000000 0) = Inr ()
   \<and> calculate_hull_premium (example_drone ''AAA-111'' 10000 ''0 - 5kg'' True 1000000 0)
         (6 / 100) example_weight_adj_table =
       (Inr (), (example_drone ''AAA-111'' 10000 ''0 - 5kg'' True 1000000 0)
          (''hull_base_rate'' \<mapsto> PFloat (6 / 100), ''hull_weight_adjustment'' \<mapsto> PInt 1,
           ''hull_final_rate'' \<mapsto> PFloat (6 / 100), ''hull_premium'' \<mapsto> PFloat 600))"
proof -
  let ?d = "example_drone ''AAA-111'' 10000 ''0 - 5kg'' True 1000000 0"
  have ok: "validate_drone ?d = Inr ()" by (rule example_drone_valid)
  have h: "?d ''value'' = Some (PInt 10000)" "?d ''weight'' = Some (PStr ''0 - 5kg'')"
    "PInt 1 = (case example_weight_adj_table ''0 - 5kg'' of Some a \<Rightarrow> a | None \<Rightarrow> PInt 1)"
    "as_float (PInt 10000) = Some (Inr 10000)" "as_float (PInt 1) = Some (Inr 1)"
    "in_float_range (6 / 100 * 1)" "in_float_range (10000 * (6 / 100 * 1))"
    by (simp_all add: example_drone_def example_weight_adj_table_def to_float_def
        in_float_range_def float_limit_def float_limit_int_def)
  from hull_pricing[where drone = ?d and v = "PInt 10000" and w = "''0 - 5kg''"
      and adj = "PInt 1" and weight_adj_table = example_weight_adj_table
      and hull_base_rate = "6 / 100" and ra = 1 and rv = 10000, OF ok h] ok
  show ?thesis by simp
qed


end
